theory Spec2Isabelle
  imports Complex_Main "HOL-Library.AList" "HOL-Library.Product_Lexorder"
begin

section \<open>Strings and URL helpers\<close>

text \<open>
  Python's \<^verbatim>\<open>str.endswith\<close> and \<^verbatim>\<open>str.startswith\<close> on a string seen as a list of
  characters, and the substring test \<^verbatim>\<open>needle in haystack\<close>.
\<close>

definition endswith :: "string \<Rightarrow> string \<Rightarrow> bool" where
  "endswith s sfx =
     (length sfx \<le> length s \<and> drop (length s - length sfx) s = sfx)"

definition startswith :: "string \<Rightarrow> string \<Rightarrow> bool" where
  "startswith s pre = (take (length pre) s = pre)"

fun contains :: "string \<Rightarrow> string \<Rightarrow> bool" where
  "contains [] needle = (needle = [])"
| "contains (c # cs) needle = (startswith (c # cs) needle \<or> contains cs needle)"

text \<open>
  \<^verbatim>\<open>self._url_pattern = re.compile(r'/images/([a-f0-9-]+)\.(png|jpg)')\<close> and
  \<^verbatim>\<open>_extract_image_id\<close>, which returns group 1 of the leftmost match of
  \<^verbatim>\<open>search\<close>, or \<^verbatim>\<open>None\<close>. At a given start position the pattern matches iff the text
  reads \<^verbatim>\<open>/images/\<close>, then a non-empty run of characters of the class, then a dot and
  \<^verbatim>\<open>png\<close> or \<^verbatim>\<open>jpg\<close>; the dot is outside the class, so only the maximal run can be
  followed by it and backtracking into the run never produces another match.
\<close>

definition id_char :: "char \<Rightarrow> bool" where
  "id_char c = (c \<in> set ''abcdef0123456789-'')"

definition match_here :: "string \<Rightarrow> string option" where
  "match_here s =
     (if startswith s ''/images/'' then
        (let rest = drop 8 s;
             run = takeWhile id_char rest;
             after = dropWhile id_char rest
         in if run \<noteq> [] \<and> (startswith after ''.png'' \<or> startswith after ''.jpg'')
            then Some run else None)
      else None)"

fun url_pattern_search :: "string \<Rightarrow> string option" where
  "url_pattern_search [] = match_here []"
| "url_pattern_search (c # cs) =
     (case match_here (c # cs) of
        Some g \<Rightarrow> Some g
      | None \<Rightarrow> url_pattern_search cs)"

definition extract_image_id :: "string \<Rightarrow> string option" where
  "extract_image_id u = url_pattern_search u"

text \<open>
  \<^verbatim>\<open>_is_final_image\<close>: \<^verbatim>\<open>url.endswith('.jpg') and blob_size > 100000\<close>.
\<close>

definition is_final_image :: "string \<Rightarrow> int \<Rightarrow> bool" where
  "is_final_image u blob_sz = (endswith u ''.jpg'' \<and> blob_sz > 100000)"

section \<open>Image progress records\<close>

text \<open>
  The stage of \<^verbatim>\<open>ImageProgress\<close> is a string in the source that only ever holds
  \<^verbatim>\<open>"preview"\<close>, \<^verbatim>\<open>"medium"\<close> or \<^verbatim>\<open>"final"\<close>.
\<close>

datatype stage = Preview | Medium | Final

record ImageProgress =
  image_id :: string
  stage :: stage
  blob :: string
  blob_size :: int
  url :: string
  is_final :: bool

text \<open>
  \<^verbatim>\<open>GenerationProgress\<close>. The dictionary \<^verbatim>\<open>images\<close> keeps insertion order (the order
  of \<^verbatim>\<open>values()\<close>), and assigning to a key that is present keeps its position: an
  association list with \<^const>\<open>AList.update\<close>.
\<close>

record GenerationProgress =
  total :: int
  images :: "(string \<times> ImageProgress) list"
  completed :: int
  has_medium :: bool

definition dict_values :: "('k \<times> 'v) list \<Rightarrow> 'v list" where
  "dict_values d = map snd d"

definition get_completed_images :: "GenerationProgress \<Rightarrow> ImageProgress list" where
  "get_completed_images p = filter is_final (dict_values (images p))"

definition check_blocked :: "GenerationProgress \<Rightarrow> bool" where
  "check_blocked p =
     (let has_medium_now = list_ex (\<lambda>img. stage img = Medium) (dict_values (images p));
          has_final = list_ex is_final (dict_values (images p))
      in has_medium_now \<and> \<not> has_final)"

text \<open>
  The stage chosen in \<^verbatim>\<open>_do_generate\<close> for an image event with URL \<open>u\<close> and a blob of
  \<open>blob_sz\<close> characters: the \<^verbatim>\<open>if is_final / elif blob_size > 30000 / else\<close> chain.
\<close>

definition classify_stage :: "string \<Rightarrow> int \<Rightarrow> stage" where
  "classify_stage u blob_sz =
     (if is_final_image u blob_sz then Final
      else if blob_sz > 30000 then Medium
      else Preview)"

text \<open>The \<^verbatim>\<open>ImageProgress(...)\<close> built for a routable image event.\<close>

definition new_image_progress :: "string \<Rightarrow> string \<Rightarrow> string \<Rightarrow> ImageProgress" where
  "new_image_progress iid b u =
     \<lparr>image_id = iid,
      stage = classify_stage u (int (length b)),
      blob = b,
      blob_size = int (length b),
      url = u,
      is_final = is_final_image u (int (length b))\<rparr>"

section \<open>Results\<close>

text \<open>
  The result dictionaries handed back to the caller. Every key that some result of the
  module carries is a field; a key that is absent is \<open>None\<close>.
\<close>

record result =
  success :: bool
  error_code :: "string option"
  error :: "string option"
  urls :: "string list option"
  b64_list :: "string list option"
  count :: "int option"
  seen_types :: "string list option"
  thumbnail_url :: "string option"
  image_preview_urls :: "string list option"

definition empty_result :: "bool \<Rightarrow> result" where
  "empty_result ok =
     \<lparr>success = ok, error_code = None, error = None, urls = None, b64_list = None,
      count = None, seen_types = None, thumbnail_url = None, image_preview_urls = None\<rparr>"

text \<open>\<^verbatim>\<open>{"success": False, "error_code": code, "error": msg}\<close>\<close>

definition failure_code :: "string \<Rightarrow> string \<Rightarrow> result" where
  "failure_code code msg = (empty_result False)\<lparr>error_code := Some code, error := Some msg\<rparr>"

text \<open>\<^verbatim>\<open>{"success": False, "error": msg}\<close>\<close>

definition failure_plain :: "string \<Rightarrow> result" where
  "failure_plain msg = (empty_result False)\<lparr>error := Some msg\<rparr>"

text \<open>\<^verbatim>\<open>result.get("error_code", "")\<close> and \<^verbatim>\<open>result.get("error", "")\<close>\<close>

definition get_error_code :: "result \<Rightarrow> string" where
  "get_error_code r = (case error_code r of None \<Rightarrow> [] | Some c \<Rightarrow> c)"

definition get_error :: "result \<Rightarrow> string" where
  "get_error r = (case error r of None \<Rightarrow> [] | Some m \<Rightarrow> m)"

definition blocked_result :: result where
  "blocked_result =
     failure_code ''blocked'' ''Generate diblokir, tidak dapat mendapatkan gambar final''"

definition no_data_result :: result where
  "no_data_result = failure_plain ''Tidak menerima data gambar''"

section \<open>Saving the kept images\<close>

text \<open>
  \<^verbatim>\<open>sorted(values, key=lambda x: (x.is_final, x.blob_size), reverse=True)\<close>. Python's
  sort is stable, and with \<^verbatim>\<open>reverse=True\<close> elements with equal keys keep their original
  order: the list is reversed, sorted in ascending order by a stable sort, and reversed
  again. Tuples compare lexicographically and \<^verbatim>\<open>False < True\<close>.
\<close>

definition sort_key_of :: "ImageProgress \<Rightarrow> bool \<times> int" where
  "sort_key_of x = (is_final x, blob_size x)"

definition sorted_reverse :: "ImageProgress list \<Rightarrow> ImageProgress list" where
  "sorted_reverse xs = rev (sort_key sort_key_of (rev xs))"

text \<open>
  The environment of \<^verbatim>\<open>_save_final_images\<close>: \<open>base_url\<close> is what
  \<^verbatim>\<open>settings.get_base_url()\<close> returns, and \<open>saves img\<close> tells whether the body of
  the \<^verbatim>\<open>try\<close> (decoding the blob and writing the file) runs through for \<open>img\<close>;
  when it raises, the image is logged and skipped.
\<close>

definition saved_url :: "string \<Rightarrow> ImageProgress \<Rightarrow> string" where
  "saved_url base_url img =
     base_url @ ''/images/'' @ image_id img @ ''.'' @ (if is_final img then ''jpg'' else ''png'')"

fun save_loop ::
  "string \<Rightarrow> (ImageProgress \<Rightarrow> bool) \<Rightarrow> int \<Rightarrow> ImageProgress list \<Rightarrow> string set \<Rightarrow>
   string list \<times> string list \<Rightarrow> string list \<times> string list" where
  "save_loop base_url saves n [] saved_ids acc = acc"
| "save_loop base_url saves n (img # rest) saved_ids acc =
     (if image_id img \<in> saved_ids then save_loop base_url saves n rest saved_ids acc
      else if int (card saved_ids) \<ge> n then acc
      else if saves img then
        save_loop base_url saves n rest (insert (image_id img) saved_ids)
          (fst acc @ [saved_url base_url img], snd acc @ [blob img])
      else save_loop base_url saves n rest saved_ids acc)"

definition save_final_images ::
  "string \<Rightarrow> (ImageProgress \<Rightarrow> bool) \<Rightarrow> GenerationProgress \<Rightarrow> int \<Rightarrow>
   string list \<times> string list" where
  "save_final_images base_url saves p n =
     save_loop base_url saves n (sorted_reverse (dict_values (images p))) {} ([], [])"

section \<open>The image stream driver\<close>

text \<open>
  What \<^verbatim>\<open>_do_generate\<close> reads from its environment: the two settings it uses, the base
  URL that \<^verbatim>\<open>settings.get_base_url()\<close> returns, and (for the video driver) whether
  \<^verbatim>\<open>curl_cffi\<close> could be imported. The configuration module is not part of this
  development, so its values are parameters.
\<close>

record settings =
  GENERATION_TIMEOUT :: real
  DEFAULT_IMAGE_COUNT :: int
  base_url :: string
  CURL_CFFI_AVAILABLE :: bool

text \<open>
  One result of \<^verbatim>\<open>asyncio.wait_for(ws.receive(), timeout=5.0)\<close>: a text frame with its
  decoded JSON, a frame of type \<^verbatim>\<open>CLOSED\<close> or \<^verbatim>\<open>ERROR\<close>, a frame of any other type,
  or \<^verbatim>\<open>asyncio.TimeoutError\<close>. A decoded text frame is an \<^verbatim>\<open>image\<close> message with its
  \<^verbatim>\<open>blob\<close> and \<^verbatim>\<open>url\<close> (the empty string when the key is absent), an \<^verbatim>\<open>error\<close>
  message with \<^verbatim>\<open>err_code\<close> and \<^verbatim>\<open>err_msg\<close>, a message of another type, or text
  on which \<^verbatim>\<open>json.loads\<close> raises.
\<close>

datatype ws_json =
  ImageMsg string string
| ErrorMsg string string
| OtherMsg
| Malformed

datatype ws_msg = TEXT ws_json | CLOSED_OR_ERROR | OTHER_FRAME | RECV_TIMEOUT

text \<open>
  The local variables of \<^verbatim>\<open>_do_generate\<close>. Time is in seconds. Every call of
  \<^verbatim>\<open>time.time()\<close> reads a clock \<open>clk\<close>, a function from the number of earlier calls to
  the value returned, and \<open>ticks\<close> counts the calls made so far. \<open>callbacks\<close> logs the
  calls of \<^verbatim>\<open>stream_callback\<close> with the image and the \<^verbatim>\<open>completed\<close> and \<^verbatim>\<open>total\<close>
  of the progress object at that moment.
\<close>

record gen_state =
  progress :: GenerationProgress
  error_info :: "(string \<times> string) option"
  start_time :: real
  last_activity :: real
  medium_received_time :: "real option"
  ticks :: nat
  callbacks :: "(ImageProgress \<times> int \<times> int) list"

definition tick :: "gen_state \<Rightarrow> gen_state" where
  "tick s = s\<lparr>ticks := Suc (ticks s)\<rparr>"

text \<open>
  Truth value of \<^verbatim>\<open>medium_received_time\<close> in \<^verbatim>\<open>if medium_received_time and ...\<close>:
  \<^verbatim>\<open>None\<close> and the float \<^verbatim>\<open>0.0\<close> are false.
\<close>

definition truthy_time :: "real option \<Rightarrow> bool" where
  "truthy_time m = (case m of None \<Rightarrow> False | Some t \<Rightarrow> t \<noteq> 0)"

text \<open>
  The body of \<^verbatim>\<open>if msg_type == "image":\<close>. \<open>None\<close> is the \<^verbatim>\<open>continue\<close> taken when no
  image id can be extracted from the URL; otherwise the state after the block.
\<close>

definition on_image_msg ::
  "bool \<Rightarrow> (nat \<Rightarrow> real) \<Rightarrow> gen_state \<Rightarrow> string \<Rightarrow> string \<Rightarrow> gen_state option" where
  "on_image_msg has_cb clk s b u =
     (if b \<noteq> [] \<and> u \<noteq> [] then
        (case extract_image_id u of
           None \<Rightarrow> None
         | Some iid \<Rightarrow>
             (let img_progress = new_image_progress iid b u;
                  s1 = (if stage img_progress = Medium \<and> medium_received_time s = None
                        then tick (s\<lparr>medium_received_time := Some (clk (ticks s))\<rparr>)
                        else s);
                  existing = map_of (images (progress s1)) iid
              in if (case existing of None \<Rightarrow> True | Some e \<Rightarrow> \<not> is_final e) then
                   (let imgs = AList.update iid img_progress (images (progress s1));
                        p = (progress s1)\<lparr>images := imgs,
                              completed := int (length (filter is_final (dict_values imgs)))\<rparr>
                    in Some (s1\<lparr>progress := p,
                          callbacks := (if has_cb
                                        then callbacks s1 @ [(img_progress, completed p, total p)]
                                        else callbacks s1)\<rparr>))
                 else Some s1))
      else Some s)"

datatype outcome = Continue gen_state | Break gen_state | Return result | Raise

text \<open>
  The two checks that end the handling of a text frame: enough final images, and the
  stall check of the receive path (more than 15 seconds since the first medium image).
\<close>

definition text_checks :: "(nat \<Rightarrow> real) \<Rightarrow> int \<Rightarrow> gen_state \<Rightarrow> outcome" where
  "text_checks clk n s =
     (if completed (progress s) \<ge> n then Break s
      else if truthy_time (medium_received_time s) \<and> completed (progress s) = 0 then
        (case medium_received_time s of
           None \<Rightarrow> Continue s
         | Some t \<Rightarrow>
             (let time_since_medium = clk (ticks s) - t
              in if time_since_medium > 15 then Return blocked_result
                 else Continue (tick s)))
      else Continue s)"

text \<open>The handler of \<^verbatim>\<open>asyncio.TimeoutError\<close>.\<close>

definition on_timeout :: "(nat \<Rightarrow> real) \<Rightarrow> gen_state \<Rightarrow> outcome" where
  "on_timeout clk s =
     (let stalled =
            (if truthy_time (medium_received_time s) \<and> completed (progress s) = 0 then
               (case medium_received_time s of
                  None \<Rightarrow> Inr s
                | Some t \<Rightarrow>
                    (let time_since_medium = clk (ticks s) - t
                     in if time_since_medium > 10 then Inl blocked_result
                        else Inr (tick s)))
             else Inr s)
      in case stalled of
           Inl r \<Rightarrow> Return r
         | Inr s1 \<Rightarrow>
             (if completed (progress s1) > 0 then
                (if clk (ticks s1) - last_activity s1 > 10 then Break (tick s1)
                 else Continue (tick s1))
              else Continue s1))"

text \<open>One pass through the body of the \<^verbatim>\<open>while\<close> loop.\<close>

fun loop_body :: "bool \<Rightarrow> (nat \<Rightarrow> real) \<Rightarrow> int \<Rightarrow> gen_state \<Rightarrow> ws_msg \<Rightarrow> outcome" where
  "loop_body has_cb clk n s (TEXT m) =
     (let s0 = tick (s\<lparr>last_activity := clk (ticks s)\<rparr>)
      in case m of
           Malformed \<Rightarrow> Raise
         | ImageMsg b u \<Rightarrow>
             (case on_image_msg has_cb clk s0 b u of
                None \<Rightarrow> Continue s0
              | Some s1 \<Rightarrow> text_checks clk n s1)
         | ErrorMsg code msg \<Rightarrow>
             (let s1 = s0\<lparr>error_info := Some (code, msg)\<rparr>
              in if code = ''rate_limit_exceeded'' then Return (failure_code code msg)
                 else text_checks clk n s1)
         | OtherMsg \<Rightarrow> text_checks clk n s0)"
| "loop_body has_cb clk n s CLOSED_OR_ERROR = Break s"
| "loop_body has_cb clk n s OTHER_FRAME = Continue s"
| "loop_body has_cb clk n s RECV_TIMEOUT = on_timeout clk s"

text \<open>
  The \<^verbatim>\<open>while time.time() - start_time < settings.GENERATION_TIMEOUT\<close> loop over the
  frames the socket delivers. It ends by leaving the loop (\<open>Exited\<close>: the deadline, or a
  \<^verbatim>\<open>break\<close>) with the state reached, by a \<^verbatim>\<open>return\<close> from inside the loop, or by an
  exception. \<open>None\<close> means that the loop is still reading when the listed frames are used up.
\<close>

datatype loop_exit = Exited gen_state | Returned result | Raised

fun read_loop ::
  "settings \<Rightarrow> bool \<Rightarrow> (nat \<Rightarrow> real) \<Rightarrow> int \<Rightarrow> gen_state \<Rightarrow> ws_msg list \<Rightarrow> loop_exit option" where
  "read_loop cfg has_cb clk n s [] =
     (if clk (ticks s) - start_time s < GENERATION_TIMEOUT cfg then None
      else Some (Exited (tick s)))"
| "read_loop cfg has_cb clk n s (ev # rest) =
     (if clk (ticks s) - start_time s < GENERATION_TIMEOUT cfg then
        (case loop_body has_cb clk n (tick s) ev of
           Continue s1 \<Rightarrow> read_loop cfg has_cb clk n s1 rest
         | Break s1 \<Rightarrow> Some (Exited s1)
         | Return r \<Rightarrow> Some (Returned r)
         | Raise \<Rightarrow> Some Raised)
      else Some (Exited (tick s)))"

text \<open>The code after the loop: save the kept images and build the result.\<close>

definition after_loop ::
  "settings \<Rightarrow> (ImageProgress \<Rightarrow> bool) \<Rightarrow> int \<Rightarrow> gen_state \<Rightarrow> result" where
  "after_loop cfg saves n s =
     (let saved = save_final_images (base_url cfg) saves (progress s) n;
          result_urls = fst saved;
          result_b64 = snd saved
      in if result_urls \<noteq> [] then
           (empty_result True)\<lparr>urls := Some result_urls, b64_list := Some result_b64,
              count := Some (int (length result_urls))\<rparr>
         else (case error_info s of
                 Some (code, msg) \<Rightarrow> failure_code code msg
               | None \<Rightarrow>
                   (if check_blocked (progress s) then blocked_result else no_data_result)))"

text \<open>
  \<^verbatim>\<open>_do_generate\<close>. \<open>connect_error\<close> is the text of the \<^verbatim>\<open>aiohttp.ClientError\<close> raised
  while the session is opened and the request sent, if any. The state starts with
  \<^verbatim>\<open>GenerationProgress(total=n)\<close> and two clock readings, for \<^verbatim>\<open>start_time\<close> and
  \<^verbatim>\<open>last_activity\<close>. An exception other than a client error leaves the function.
\<close>

datatype exn = JSONDecodeError

definition init_state :: "(nat \<Rightarrow> real) \<Rightarrow> int \<Rightarrow> gen_state" where
  "init_state clk n =
     \<lparr>progress = \<lparr>total = n, images = [], completed = 0, has_medium = False\<rparr>,
      error_info = None,
      start_time = clk 0,
      last_activity = clk 1,
      medium_received_time = None,
      ticks = 2,
      callbacks = []\<rparr>"

definition do_generate ::
  "settings \<Rightarrow> bool \<Rightarrow> (nat \<Rightarrow> real) \<Rightarrow> (ImageProgress \<Rightarrow> bool) \<Rightarrow> string option \<Rightarrow> int \<Rightarrow>
   ws_msg list \<Rightarrow> (exn + result) option" where
  "do_generate cfg has_cb clk saves connect_error n evs =
     (case connect_error of
        Some e \<Rightarrow> Some (Inr (failure_plain (''Koneksi gagal: '' @ e)))
      | None \<Rightarrow>
          (case read_loop cfg has_cb clk n (init_state clk n) evs of
             None \<Rightarrow> None
           | Some (Exited s) \<Rightarrow> Some (Inr (after_loop cfg saves n s))
           | Some (Returned r) \<Rightarrow> Some (Inr r)
           | Some Raised \<Rightarrow> Some (Inl JSONDecodeError)))"


definition reaches_stall_check :: "ws_json \<Rightarrow> bool" where
  "reaches_stall_check m =
     (case m of
        ImageMsg b u \<Rightarrow>
          b = [] \<or> u = [] \<or> (extract_image_id u \<noteq> None \<and> \<not> is_final_image u (int (length b)))
      | ErrorMsg code msg \<Rightarrow> code \<noteq> ''rate_limit_exceeded''
      | OtherMsg \<Rightarrow> True
      | Malformed \<Rightarrow> False)"


section \<open>The retry and failover orchestrator\<close>

text \<open>
  The credential pool \<^verbatim>\<open>sso_manager\<close> and the drivers are seen from \<^verbatim>\<open>generate\<close> and
  \<^verbatim>\<open>generate_video\<close> through their answers only. In the \<open>i\<close>-th pass of the retry loop
  \<open>get_next_sso env i\<close> is what \<^verbatim>\<open>sso_manager.get_next_sso()\<close> returns,
  \<open>get_age_verified env i\<close> what \<^verbatim>\<open>sso_manager.get_age_verified\<close> returns for the
  credential in use, \<open>verify_age env i\<close> what \<^verbatim>\<open>_verify_age\<close> returns, and
  \<open>run_attempt env i sso n\<close> and \<open>run_video_attempt env i sso\<close> what \<^verbatim>\<open>_do_generate\<close>
  and \<^verbatim>\<open>_do_generate_video\<close> do with that credential: \<open>Inr\<close> the result they return,
  \<open>Inl\<close> the text of the exception they raise. \<open>has_record_usage\<close> is
  \<^verbatim>\<open>hasattr(sso_manager, 'record_usage')\<close>. The calls made on the pool and the attempts
  started are logged in order; the pool's own methods are taken not to raise.
\<close>

record orch_env =
  get_next_sso :: "nat \<Rightarrow> string option"
  get_age_verified :: "nat \<Rightarrow> int"
  verify_age :: "nat \<Rightarrow> bool"
  run_attempt :: "nat \<Rightarrow> string \<Rightarrow> int \<Rightarrow> string + result"
  run_video_attempt :: "nat \<Rightarrow> string \<Rightarrow> string + result"
  has_record_usage :: bool

datatype pool_call =
  GetNextSso
| GetAgeVerified string
| VerifyAge string
| SetAgeVerified string int
| MarkSuccess string
| MarkFailed string string
| RecordUsage string
| Attempt string

text \<open>
  Truth value of an optional string (\<^verbatim>\<open>sso if sso else ...\<close>, \<^verbatim>\<open>if not current_sso\<close>):
  \<^verbatim>\<open>None\<close> and the empty string are false. \<open>truthy_str\<close> returns the string when it
  is true.
\<close>

definition truthy_str :: "string option \<Rightarrow> string option" where
  "truthy_str v = (case v of None \<Rightarrow> None | Some s \<Rightarrow> if s = [] then None else Some s)"

text \<open>
  The head of a pass, shared by both loops: choose the credential (the pinned one, or
  the next one of the pool), give up when there is none, and verify the age once if
  the pool says it is not verified. It yields the credential and the extended log, or
  \<open>None\<close> with the log when no credential is available.
\<close>

definition acquire :: "orch_env \<Rightarrow> string option \<Rightarrow> nat \<Rightarrow> pool_call list \<Rightarrow>
    string option \<times> pool_call list" where
  "acquire env sso i calls =
     (let chosen = (case truthy_str sso of
                      Some p \<Rightarrow> (Some p, calls)
                    | None \<Rightarrow> (get_next_sso env i, calls @ [GetNextSso]))
      in case truthy_str (fst chosen) of
           None \<Rightarrow> (None, snd chosen)
         | Some c \<Rightarrow>
             (Some c,
              snd chosen @ [GetAgeVerified c] @
                (if get_age_verified env i = 0
                 then VerifyAge c # (if verify_age env i then [SetAgeVerified c 1] else [])
                 else [])))"

definition no_sso_result :: result where
  "no_sso_result = failure_plain ''Tidak ada SSO yang tersedia''"

definition all_retries_failed :: result where
  "all_retries_failed = failure_plain ''Semua retry gagal''"

definition max_blocked_retries :: int where
  "max_blocked_retries = 3"

definition blocked_reason :: string where
  "blocked_reason = ''blocked - tidak dapat menghasilkan gambar final''"

definition blocked_terminal :: result where
  "blocked_terminal =
     failure_code ''blocked'' ''Berturut-turut 3 kali diblokir, silakan coba lagi nanti''"

definition success_calls :: "orch_env \<Rightarrow> string \<Rightarrow> pool_call list" where
  "success_calls env c = MarkSuccess c # (if has_record_usage env then [RecordUsage c] else [])"

text \<open>
  The loop \<^verbatim>\<open>for attempt in range(max_retries)\<close> of \<^verbatim>\<open>generate\<close>, with the number of
  passes left, the index of the pass, \<^verbatim>\<open>blocked_retries\<close>, \<^verbatim>\<open>last_error\<close> and the
  log. It returns the result of the call and the log.
\<close>

fun generate_from ::
  "orch_env \<Rightarrow> string option \<Rightarrow> int \<Rightarrow> nat \<Rightarrow> nat \<Rightarrow> int \<Rightarrow> result option \<Rightarrow> pool_call list \<Rightarrow>
   result \<times> pool_call list" where
  "generate_from env sso n 0 attempt blocked_retries last_error calls =
     (case last_error of Some r \<Rightarrow> (r, calls) | None \<Rightarrow> (all_retries_failed, calls))"
| "generate_from env sso n (Suc left) attempt blocked_retries last_error calls =
     (case acquire env sso attempt calls of
        (None, calls1) \<Rightarrow> (no_sso_result, calls1)
      | (Some current_sso, calls1) \<Rightarrow>
          (case run_attempt env attempt current_sso n of
             Inl e \<Rightarrow>
               (let calls2 = calls1 @ [Attempt current_sso, MarkFailed current_sso e]
                in if truthy_str sso \<noteq> None then (failure_plain e, calls2)
                   else generate_from env sso n left (Suc attempt) blocked_retries
                          (Some (failure_plain e)) calls2)
           | Inr r \<Rightarrow>
               (if success r then
                  (r, calls1 @ Attempt current_sso # success_calls env current_sso)
                else if get_error_code r = ''blocked'' then
                  (let calls2 = calls1 @ [Attempt current_sso, MarkFailed current_sso blocked_reason]
                   in if blocked_retries + 1 \<ge> max_blocked_retries then (blocked_terminal, calls2)
                      else if truthy_str sso \<noteq> None then (r, calls2)
                      else generate_from env sso n left (Suc attempt) (blocked_retries + 1)
                             last_error calls2)
                else if get_error_code r \<in> {''rate_limit_exceeded'', ''unauthorized''} then
                  (let calls2 = calls1 @ [Attempt current_sso, MarkFailed current_sso (get_error r)]
                   in if truthy_str sso \<noteq> None then (r, calls2)
                      else generate_from env sso n left (Suc attempt) blocked_retries
                             (Some r) calls2)
                else (r, calls1 @ [Attempt current_sso]))))"

text \<open>
  \<^verbatim>\<open>generate\<close>: \<open>n\<close> defaults to \<^verbatim>\<open>settings.DEFAULT_IMAGE_COUNT\<close>, and
  \<^verbatim>\<open>range(max_retries)\<close> is empty for a count that is not positive.
\<close>

definition image_count :: "settings \<Rightarrow> int option \<Rightarrow> int" where
  "image_count cfg n = (case n of None \<Rightarrow> DEFAULT_IMAGE_COUNT cfg | Some k \<Rightarrow> k)"

definition generate ::
  "settings \<Rightarrow> orch_env \<Rightarrow> int option \<Rightarrow> string option \<Rightarrow> int \<Rightarrow> result \<times> pool_call list" where
  "generate cfg env n sso max_retries =
     generate_from env sso (image_count cfg n) (nat max_retries) 0 0 None []"

text \<open>The loop of \<^verbatim>\<open>generate_video\<close> and the function itself.\<close>

fun generate_video_from ::
  "orch_env \<Rightarrow> string option \<Rightarrow> nat \<Rightarrow> nat \<Rightarrow> result option \<Rightarrow> pool_call list \<Rightarrow>
   result \<times> pool_call list" where
  "generate_video_from env sso 0 attempt last_error calls =
     (case last_error of Some r \<Rightarrow> (r, calls) | None \<Rightarrow> (all_retries_failed, calls))"
| "generate_video_from env sso (Suc left) attempt last_error calls =
     (case acquire env sso attempt calls of
        (None, calls1) \<Rightarrow> (no_sso_result, calls1)
      | (Some current_sso, calls1) \<Rightarrow>
          (case run_video_attempt env attempt current_sso of
             Inl e \<Rightarrow>
               (let calls2 = calls1 @ [Attempt current_sso, MarkFailed current_sso e]
                in if truthy_str sso \<noteq> None then (failure_plain e, calls2)
                   else generate_video_from env sso left (Suc attempt)
                          (Some (failure_plain e)) calls2)
           | Inr r \<Rightarrow>
               (if success r then
                  (r, calls1 @ Attempt current_sso # success_calls env current_sso)
                else if get_error_code r \<in> {''rate_limit_exceeded'', ''unauthorized''} then
                  (let calls2 = calls1 @ [Attempt current_sso, MarkFailed current_sso (get_error r)]
                   in if truthy_str sso \<noteq> None then (r, calls2)
                      else generate_video_from env sso left (Suc attempt) (Some r) calls2)
                else (r, calls1 @ [Attempt current_sso]))))"

definition generate_video ::
  "orch_env \<Rightarrow> string option \<Rightarrow> int \<Rightarrow> result \<times> pool_call list" where
  "generate_video env sso max_retries =
     generate_video_from env sso (nat max_retries) 0 None []"

text \<open>
  The credentials with which attempts were started, in order, read off a log; whether a
  pass ends in the blocked failure; and whether it ends in a way after which an unpinned
  call goes on to the next pass (an exception, or a failure whose code is
  \<^verbatim>\<open>blocked\<close>, \<^verbatim>\<open>rate_limit_exceeded\<close> or \<^verbatim>\<open>unauthorized\<close>).
\<close>

fun attempts_of :: "pool_call list \<Rightarrow> string list" where
  "attempts_of [] = []"
| "attempts_of (Attempt c # cs) = c # attempts_of cs"
| "attempts_of (_ # cs) = attempts_of cs"

definition is_blocked :: "string + result \<Rightarrow> bool" where
  "is_blocked out =
     (case out of Inl e \<Rightarrow> False | Inr r \<Rightarrow> \<not> success r \<and> get_error_code r = ''blocked'')"

definition is_retried :: "string + result \<Rightarrow> bool" where
  "is_retried out =
     (case out of
        Inl e \<Rightarrow> True
      | Inr r \<Rightarrow> \<not> success r \<and>
          get_error_code r \<in> {''blocked'', ''rate_limit_exceeded'', ''unauthorized''})"

section \<open>The video stream driver\<close>

text \<open>Python's \<^verbatim>\<open>str\<close> of an integer, used where a status code is put into a message.\<close>

definition digit_char :: "nat \<Rightarrow> char" where
  "digit_char d = ''0123456789'' ! d"

fun str_nat :: "nat \<Rightarrow> string" where
  "str_nat n = (if n < 10 then [digit_char n] else str_nat (n div 10) @ [digit_char (n mod 10)])"

declare str_nat.simps [simp del]

definition str_int :: "int \<Rightarrow> string" where
  "str_int i = (if i < 0 then CHR ''-'' # str_nat (nat (- i)) else str_nat (nat i))"

text \<open>
  What a request can do: raise \<^verbatim>\<open>aiohttp.ClientError\<close>, raise another exception, or
  deliver a response (the texts are those of \<^verbatim>\<open>str(e)\<close>). Of the response to the
  post-creation request the drivers read the status, the body text and the value of
  \<^verbatim>\<open>post.id\<close> in the decoded body (\<open>None\<close> when the body is no JSON object or the key is
  missing). Of the response to the chat request they read the status, the body text and
  the lines of the stream.
\<close>

datatype 'a io = ClientError string | OtherException string | Ok 'a

record post_response =
  post_status :: int
  post_body :: string
  post_id :: "string option"

text \<open>
  A line of the stream after the driver has stripped it, removed a \<^verbatim>\<open>data:\<close> prefix and
  decoded it: \<open>Skipped\<close> is a line that the loop passes over (empty, \<^verbatim>\<open>[DONE]\<close>, no JSON,
  or a \<^verbatim>\<open>result.response\<close> that is no object); \<open>Rec token vr\<close> is a record whose
  response has a true \<^verbatim>\<open>token\<close> iff \<open>token\<close> and whose
  \<^verbatim>\<open>streamingVideoGenerationResponse\<close>, when it is a non-empty object, is \<open>vr\<close> with
  \<^verbatim>\<open>int(progress or 0)\<close>, \<^verbatim>\<open>videoUrl\<close> and \<^verbatim>\<open>thumbnailImageUrl\<close>.
\<close>

datatype video_resp = VideoResp int string string

datatype video_line = Skipped | Rec bool "video_resp option"

record chat_response =
  chat_status :: int
  chat_body :: string
  chat_lines :: "video_line list"

text \<open>
  The variables of the scan of the stream. \<^verbatim>\<open>seen_types\<close> is a set that can hold the
  two strings \<^verbatim>\<open>token\<close> and \<^verbatim>\<open>streamingVideoGenerationResponse\<close> only, so it is kept as
  two flags; \<open>seen_types_sorted\<close> is \<^verbatim>\<open>sorted(list(seen_types))\<close>.
\<close>

record scan_state =
  seen_token :: bool
  seen_video :: bool
  preview_image_urls :: "string list"
  final_video_url :: string
  final_thumbnail_url :: string

definition scan_init :: scan_state where
  "scan_init =
     \<lparr>seen_token = False, seen_video = False, preview_image_urls = [],
      final_video_url = [], final_thumbnail_url = []\<rparr>"

definition seen_types_sorted :: "scan_state \<Rightarrow> string list" where
  "seen_types_sorted st =
     (if seen_video st then [''streamingVideoGenerationResponse''] else []) @
     (if seen_token st then [''token''] else [])"

text \<open>
  The loop over the lines, the same in both drivers: it ends at the first record with
  \<^verbatim>\<open>progress >= 100 and video_url\<close>.
\<close>

fun scan_lines :: "video_line list \<Rightarrow> scan_state \<Rightarrow> scan_state" where
  "scan_lines [] st = st"
| "scan_lines (Skipped # rest) st = scan_lines rest st"
| "scan_lines (Rec token None # rest) st =
     scan_lines rest (if token then st\<lparr>seen_token := True\<rparr> else st)"
| "scan_lines (Rec token (Some (VideoResp prog video_url thumb_url)) # rest) st =
     (let st1 = (if token then st\<lparr>seen_token := True\<rparr> else st)\<lparr>seen_video := True\<rparr>;
          st2 = (if thumb_url \<noteq> [] \<and> thumb_url \<notin> set (preview_image_urls st1)
                 then st1\<lparr>preview_image_urls := preview_image_urls st1 @ [thumb_url]\<rparr>
                 else st1)
      in if prog \<ge> 100 \<and> video_url \<noteq> []
         then st2\<lparr>final_video_url := video_url, final_thumbnail_url := thumb_url\<rparr>
         else scan_lines rest st2)"

definition video_not_supported :: "scan_state \<Rightarrow> result" where
  "video_not_supported st =
     (failure_code ''video_not_supported''
        ''Video progress/event tidak ditemukan dari app-chat stream'')
     \<lparr>seen_types := Some (seen_types_sorted st),
      image_preview_urls := Some (take 3 (preview_image_urls st))\<rparr>"

text \<open>
  The environment of one video attempt: the answers to the two requests of each of the
  three impersonation profiles of the curl flow and of the aiohttp flow, what the rest
  of \<^verbatim>\<open>_upscale_video_url\<close> yields for a URL at 720p (the HD URL, or the URL itself on
  any failure), and the URL that \<^verbatim>\<open>_save_video_output\<close> returns.
\<close>

record video_env =
  curl_post :: "nat \<Rightarrow> post_response io"
  curl_chat :: "nat \<Rightarrow> chat_response io"
  http_post :: "post_response io"
  http_chat :: "chat_response io"
  hd_answer :: "string \<Rightarrow> string"
  save_video_output :: "string \<Rightarrow> string"

text \<open>
  \<^verbatim>\<open>_sync_do_generate_video_via_curl_once\<close> for the profile with index \<open>i\<close>. Every
  exception of a request leaves the function (\<open>Inl\<close>).
\<close>

definition sync_do_generate_video_via_curl_once :: "video_env \<Rightarrow> nat \<Rightarrow> string + result" where
  "sync_do_generate_video_via_curl_once env i =
     (case curl_post env i of
        ClientError e \<Rightarrow> Inl e
      | OtherException e \<Rightarrow> Inl e
      | Ok media_resp \<Rightarrow>
          if post_status media_resp \<noteq> 200 then
            Inr (failure_code ''video_post_failed''
                   (''media_post failed ('' @ str_int (post_status media_resp) @ '') '' @
                    take 300 (post_body media_resp)))
          else if truthy_str (post_id media_resp) = None then
            Inr (failure_code ''video_post_failed'' ''Post ID tidak ditemukan'')
          else
            (case curl_chat env i of
               ClientError e \<Rightarrow> Inl e
             | OtherException e \<Rightarrow> Inl e
             | Ok chat_resp \<Rightarrow>
                 if chat_status chat_resp \<noteq> 200 then
                   Inr (failure_code
                          (if chat_status chat_resp = 429 then ''rate_limit_exceeded''
                           else if chat_status chat_resp = 401 then ''unauthorized''
                           else [])
                          (''app_chat failed ('' @ str_int (chat_status chat_resp) @ '') '' @
                           take 300 (chat_body chat_resp)))
                 else
                   (let st = scan_lines (chat_lines chat_resp) scan_init
                    in if final_video_url st \<noteq> [] then
                         Inr ((empty_result True)
                                \<lparr>urls := Some [final_video_url st], count := Some 1,
                                 seen_types := Some (seen_types_sorted st),
                                 thumbnail_url := Some (final_thumbnail_url st)\<rparr>)
                       else Inr (video_not_supported st))))"

text \<open>
  \<^verbatim>\<open>_sync_do_generate_video_via_curl\<close>: the profiles are tried in order; the next one is
  tried only after a failure whose text contains \<^verbatim>\<open>(403)\<close> or whose code is
  \<^verbatim>\<open>video_post_failed\<close>.
\<close>

fun curl_profiles ::
  "video_env \<Rightarrow> nat list \<Rightarrow> result \<Rightarrow> string + result" where
  "curl_profiles env [] last_error = Inr last_error"
| "curl_profiles env (i # rest) last_error =
     (case sync_do_generate_video_via_curl_once env i of
        Inl e \<Rightarrow> Inl e
      | Inr r \<Rightarrow>
          if success r then Inr r
          else if \<not> contains (get_error r) ''(403)'' \<and> error_code r \<noteq> Some ''video_post_failed''
          then Inr r
          else curl_profiles env rest r)"










section \<open>The incremental consumption adapter\<close>

text \<open>
  The items that \<^verbatim>\<open>generate_stream\<close> puts on its queue: the dictionary built by the
  callback from an image and the progress object (\<^verbatim>\<open>"type": "progress"\<close> with the id,
  stage, size and finality of the image and the completed and total counts), and the
  result of \<^verbatim>\<open>generate\<close> with \<^verbatim>\<open>"type": "result"\<close> added.
\<close>

datatype item =
  ProgressItem string stage int bool int int
| ResultItem result

fun item_type :: "item \<Rightarrow> string" where
  "item_type (ProgressItem iid st sz fin cnt tot_cnt) = ''progress''"
| "item_type (ResultItem r) = ''result''"

definition progress_item :: "ImageProgress \<times> int \<times> int \<Rightarrow> item" where
  "progress_item cb =
     (case cb of (img, cnt, tot_cnt) \<Rightarrow>
        ProgressItem (image_id img) (stage img) (blob_size img) (is_final img) cnt tot_cnt)"

text \<open>
  \<^verbatim>\<open>generate_task\<close> as the list of what it does to the queue and the event. Its run of
  \<^verbatim>\<open>generate\<close> is given by the calls of the callback it causes, in order, and by its
  outcome: \<open>Some\<close> the result it returns, or \<open>None\<close> when it raises, in which case the
  task ends without putting a result and without setting the event.
\<close>

datatype task_action = Put item | SetDone

definition generate_task ::
  "(ImageProgress \<times> int \<times> int) list \<Rightarrow> result option \<Rightarrow> task_action list" where
  "generate_task cbs outcome =
     map (\<lambda>cb. Put (progress_item cb)) cbs @
     (case outcome of None \<Rightarrow> [] | Some r \<Rightarrow> [Put (ResultItem r), SetDone])"

text \<open>
  The state of one call of \<^verbatim>\<open>generate_stream\<close>: what the task still has to do, the
  queue, the event \<^verbatim>\<open>done\<close>, the items yielded so far, and where the generator stands:
  at the test of its \<^verbatim>\<open>while\<close> loop, inside \<^verbatim>\<open>wait_for(queue.get(), timeout=1.0)\<close>, or
  past the loop.
\<close>

datatype consumer_pc = AtLoopHead | Waiting | Finished

record stream_state =
  task :: "task_action list"
  queue :: "item list"
  done_set :: bool
  yielded :: "item list"
  pc :: consumer_pc

definition stream_init ::
  "(ImageProgress \<times> int \<times> int) list \<Rightarrow> result option \<Rightarrow> stream_state" where
  "stream_init cbs outcome =
     \<lparr>task = generate_task cbs outcome, queue = [], done_set = False, yielded = [],
      pc = AtLoopHead\<rparr>"

text \<open>
  The steps of the task and of the generator, in any interleaving. The task puts its
  next item or sets the event, as long as the generator has not left its loop (leaving
  it cancels the task). The generator enters the wait when
  \<^verbatim>\<open>not done.is_set() or not queue.empty()\<close> and leaves the loop otherwise; in the wait
  it either gets the head of the queue, yields it, and breaks if it is the result, or
  times out and goes back to the test. The consumer is taken to resume the generator
  after every item.
\<close>

inductive stream_step :: "stream_state \<Rightarrow> stream_state \<Rightarrow> bool" where
  put: "task s = Put x # rest \<Longrightarrow> pc s \<noteq> Finished \<Longrightarrow>
     stream_step s (s\<lparr>task := rest, queue := queue s @ [x]\<rparr>)"
| set_done: "task s = SetDone # rest \<Longrightarrow> pc s \<noteq> Finished \<Longrightarrow>
     stream_step s (s\<lparr>task := rest, done_set := True\<rparr>)"
| enter: "pc s = AtLoopHead \<Longrightarrow> \<not> done_set s \<or> queue s \<noteq> [] \<Longrightarrow>
     stream_step s (s\<lparr>pc := Waiting\<rparr>)"
| leave: "pc s = AtLoopHead \<Longrightarrow> done_set s \<Longrightarrow> queue s = [] \<Longrightarrow>
     stream_step s (s\<lparr>pc := Finished\<rparr>)"
| get: "pc s = Waiting \<Longrightarrow> queue s = x # q \<Longrightarrow>
     stream_step s
       (s\<lparr>queue := q, yielded := yielded s @ [x],
          pc := (if item_type x = ''result'' then Finished else AtLoopHead)\<rparr>)"
| timeout: "pc s = Waiting \<Longrightarrow> stream_step s (s\<lparr>pc := AtLoopHead\<rparr>)"

code_pred stream_step .

inductive reachable ::
  "(ImageProgress \<times> int \<times> int) list \<Rightarrow> result option \<Rightarrow> stream_state \<Rightarrow> bool" where
  start: "reachable cbs outcome (stream_init cbs outcome)"
| step: "reachable cbs outcome s \<Longrightarrow> stream_step s s' \<Longrightarrow> reachable cbs outcome s'"

text \<open>
  The items a run is to deliver, the items among the task's remaining actions, and the
  invariant of the reachable states: the yielded items, the queue and the items still to
  be put make up the items to deliver, in this order; the remaining actions are a final
  part of the task; and the event is set only when the task has returned a result and
  has nothing left to do.
\<close>

definition all_items :: "(ImageProgress \<times> int \<times> int) list \<Rightarrow> result option \<Rightarrow> item list" where
  "all_items cbs outcome =
     map progress_item cbs @ (case outcome of None \<Rightarrow> [] | Some r \<Rightarrow> [ResultItem r])"

fun puts :: "task_action list \<Rightarrow> item list" where
  "puts [] = []"
| "puts (Put x # as) = x # puts as"
| "puts (SetDone # as) = puts as"

definition stream_inv ::
  "(ImageProgress \<times> int \<times> int) list \<Rightarrow> result option \<Rightarrow> stream_state \<Rightarrow> bool" where
  "stream_inv cbs outcome s \<longleftrightarrow>
     yielded s @ queue s @ puts (task s) = all_items cbs outcome \<and>
     (\<exists>before. generate_task cbs outcome = before @ task s) \<and>
     (done_set s \<longrightarrow> task s = [] \<and> outcome \<noteq> None) \<and>
     (pc s = Finished \<longrightarrow> outcome \<noteq> None \<and> yielded s = all_items cbs outcome)"

section \<open>Example inputs\<close>

text \<open>
  Concrete clocks, settings, units, frames and states on which the properties below are
  run. \<open>ex_clock\<close> advances one second with every reading. \<open>ex_clock_late\<close> does the
  same for the first six readings and is twenty seconds further on from the seventh.
  \<open>ex_clock_idle\<close> agrees with them on the first six readings and then advances five
  seconds with every second reading, as a sequence of read timeouts does.
\<close>

definition ex_clock :: "nat \<Rightarrow> real" where
  "ex_clock i = 1000 + real i"

definition ex_clock_late :: "nat \<Rightarrow> real" where
  "ex_clock_late i = (if i < 6 then 1000 + real i else 1020 + real i)"

definition ex_clock_idle :: "nat \<Rightarrow> real" where
  "ex_clock_idle i = (if i < 6 then 1000 + real i else 1004 + 5 * real ((i - 4) div 2))"

definition ex_settings :: settings where
  "ex_settings =
     \<lparr>GENERATION_TIMEOUT = 120, DEFAULT_IMAGE_COUNT = 4, base_url = ''http://localhost:9563'',
      CURL_CFFI_AVAILABLE = False\<rparr>"

definition saves_all :: "ImageProgress \<Rightarrow> bool" where
  "saves_all img = True"

definition saves_none :: "ImageProgress \<Rightarrow> bool" where
  "saves_none img = False"

definition ex_final_unit :: ImageProgress where
  "ex_final_unit =
     \<lparr>image_id = ''ab12'', stage = Final, blob = replicate 100001 (CHR ''A''),
      blob_size = 100001, url = ''https://assets.example/images/ab12.jpg'', is_final = True\<rparr>"

definition ex_medium_unit :: ImageProgress where
  "ex_medium_unit =
     \<lparr>image_id = ''ab12'', stage = Medium, blob = replicate 30001 (CHR ''A''),
      blob_size = 30001, url = ''https://assets.example/images/ab12.png'', is_final = False\<rparr>"

definition ex_preview_unit :: ImageProgress where
  "ex_preview_unit =
     \<lparr>image_id = ''ab12'', stage = Preview, blob = ''AAAA'', blob_size = 4,
      url = ''https://assets.example/images/ab12.png'', is_final = False\<rparr>"

definition ex_state_with :: "ImageProgress \<Rightarrow> gen_state" where
  "ex_state_with img =
     (init_state ex_clock 4)\<lparr>progress :=
        \<lparr>total = 4, images = [(''ab12'', img)],
         completed = (if is_final img then 1 else 0), has_medium = False\<rparr>\<rparr>"

definition ex_preview_event :: ws_msg where
  "ex_preview_event = TEXT (ImageMsg ''AAAA'' ''https://assets.example/images/ab12.png'')"

definition ex_medium_event :: ws_msg where
  "ex_medium_event =
     TEXT (ImageMsg (replicate 30001 (CHR ''A'')) ''https://assets.example/images/ab12.png'')"

definition ex_rate_limit_event :: ws_msg where
  "ex_rate_limit_event = TEXT (ErrorMsg ''rate_limit_exceeded'' ''Too many requests'')"

text \<open>The state in which the loop is left after \<open>ex_preview_event\<close> and a close frame.\<close>

definition ex_preview_exit :: gen_state where
  "ex_preview_exit =
     \<lparr>progress = \<lparr>total = 1, images = [(''ab12'', ex_preview_unit)],
         completed = 0, has_medium = False\<rparr>,
      error_info = None, start_time = 1000, last_activity = 1003,
      medium_received_time = None, ticks = 5, callbacks = []\<rparr>"

text \<open>
  The state after the pass that reads \<open>ex_medium_event\<close> as the first frame, under any
  of the three clocks: the medium image was received at 1004.
\<close>

definition ex_stalled_state :: gen_state where
  "ex_stalled_state =
     \<lparr>progress = \<lparr>total = 4, images = [(''ab12'', ex_medium_unit)],
         completed = 0, has_medium = False\<rparr>,
      error_info = None, start_time = 1000, last_activity = 1003,
      medium_received_time = Some 1004, ticks = 6, callbacks = []\<rparr>"






text \<open>
  A credential pool that hands out a new credential in every pass, and two environments
  of the orchestrator: in \<open>ex_env_blocked\<close> every image attempt ends in the blocked failure
  except the second, which is rate limited; in \<open>ex_env_rate_limited\<close> every attempt,
  image or video, is rate limited.
\<close>

definition ex_creds :: "nat \<Rightarrow> string" where
  "ex_creds i =
     (if i = 0 then ''sso-a'' else if i = 1 then ''sso-b'' else if i = 2 then ''sso-c''
      else ''sso-d'')"

definition ex_rate_limited :: result where
  "ex_rate_limited = failure_code ''rate_limit_exceeded'' ''Too many requests''"

definition ex_env_blocked :: orch_env where
  "ex_env_blocked =
     \<lparr>get_next_sso = (\<lambda>i. Some (ex_creds i)),
      get_age_verified = (\<lambda>i. 1),
      verify_age = (\<lambda>i. False),
      run_attempt = (\<lambda>i c n. if i = 1 then Inr ex_rate_limited else Inr blocked_result),
      run_video_attempt = (\<lambda>i c. Inr ex_rate_limited),
      has_record_usage = True\<rparr>"

definition ex_env_rate_limited :: orch_env where
  "ex_env_rate_limited =
     \<lparr>get_next_sso = (\<lambda>i. Some (ex_creds i)),
      get_age_verified = (\<lambda>i. 0),
      verify_age = (\<lambda>i. True),
      run_attempt = (\<lambda>i c n. Inr ex_rate_limited),
      run_video_attempt = (\<lambda>i c. Inr ex_rate_limited),
      has_record_usage = True\<rparr>"







text \<open>
  A run of the adapter with one callback, and the states of such a run in which the
  event is not set.
\<close>

definition ex_callbacks :: "(ImageProgress \<times> int \<times> int) list" where
  "ex_callbacks = [(ex_preview_unit, 0, 4)]"

definition ex_stream_state ::
  "task_action list \<Rightarrow> item list \<Rightarrow> item list \<Rightarrow> consumer_pc \<Rightarrow> stream_state" where
  "ex_stream_state t q y p = \<lparr>task = t, queue = q, done_set = False, yielded = y, pc = p\<rparr>"

section \<open>Properties of the image stream driver\<close>

subsection \<open>What one pass of the loop does to the stored units\<close>

lemma extract_image_id_Nil: "extract_image_id [] = None"
  by (simp add: extract_image_id_def match_here_def startswith_def)

lemma on_image_msg_keeps_final:
  assumes "map_of (images (progress s)) k = Some e" and "is_final e"
    and "on_image_msg has_cb clk s b u = Some s'"
  shows "map_of (images (progress s')) k = Some e"
  using assms
  by (auto simp: on_image_msg_def Let_def tick_def update_conv' split: if_splits option.splits)

lemma text_checks_progress:
  "text_checks clk n s = Continue s' \<or> text_checks clk n s = Break s' \<Longrightarrow> progress s' = progress s"
  by (auto simp: text_checks_def Let_def tick_def split: if_splits option.splits)

lemma on_timeout_progress:
  "on_timeout clk s = Continue s' \<or> on_timeout clk s = Break s' \<Longrightarrow> progress s' = progress s"
  by (auto simp: on_timeout_def Let_def tick_def split: if_splits option.splits sum.splits)

lemma loop_body_progress_cases:
  assumes "loop_body has_cb clk n s ev = Continue s' \<or> loop_body has_cb clk n s ev = Break s'"
  shows "progress s' = progress s \<or>
         (\<exists>s0 b u s1. progress s0 = progress s \<and> on_image_msg has_cb clk s0 b u = Some s1 \<and>
             progress s' = progress s1)"
proof (cases ev)
  case (TEXT m)
  let ?s0 = "tick (s\<lparr>last_activity := clk (ticks s)\<rparr>)"
  have s0: "progress ?s0 = progress s" by (simp add: tick_def)
  show ?thesis
  proof (cases m)
    case (ImageMsg b u)
    show ?thesis
    proof (cases "on_image_msg has_cb clk ?s0 b u")
      case None
      with assms TEXT ImageMsg have "s' = ?s0" by (auto simp: Let_def)
      with s0 show ?thesis by simp
    next
      case (Some s1)
      from assms TEXT ImageMsg Some
      have "text_checks clk n s1 = Continue s' \<or> text_checks clk n s1 = Break s'"
        by (simp add: Let_def)
      then have "progress s' = progress s1" by (rule text_checks_progress)
      with s0 Some show ?thesis by blast
    qed
  next
    case (ErrorMsg c m')
    let ?s1 = "?s0\<lparr>error_info := Some (c, m')\<rparr>"
    from assms TEXT ErrorMsg
    have "text_checks clk n ?s1 = Continue s' \<or> text_checks clk n ?s1 = Break s'"
      by (auto simp: Let_def split: if_splits)
    then have "progress s' = progress ?s1" by (rule text_checks_progress)
    with s0 show ?thesis by simp
  next
    case OtherMsg
    from assms TEXT OtherMsg
    have "text_checks clk n ?s0 = Continue s' \<or> text_checks clk n ?s0 = Break s'"
      by (simp add: Let_def)
    then have "progress s' = progress ?s0" by (rule text_checks_progress)
    with s0 show ?thesis by simp
  next
    case Malformed
    with assms TEXT show ?thesis by (simp add: Let_def)
  qed
next
  case CLOSED_OR_ERROR
  with assms show ?thesis by auto
next
  case OTHER_FRAME
  with assms show ?thesis by auto
next
  case RECV_TIMEOUT
  with assms have "on_timeout clk s = Continue s' \<or> on_timeout clk s = Break s'" by simp
  then have "progress s' = progress s" by (rule on_timeout_progress)
  then show ?thesis by simp
qed

lemma read_loop_invariant:
  assumes step: "\<And>s0 b u s1. I (progress s0) \<Longrightarrow> on_image_msg has_cb clk s0 b u = Some s1
                   \<Longrightarrow> I (progress s1)"
    and "I (progress s)"
    and "read_loop cfg has_cb clk n s evs = Some (Exited s')"
  shows "I (progress s')"
  using assms(2,3)
proof (induction evs arbitrary: s)
  case Nil
  then show ?case by (auto simp: tick_def split: if_splits)
next
  case (Cons ev rest)
  have t: "progress (tick s) = progress s" by (simp add: tick_def)
  show ?case
  proof (cases "clk (ticks s) - start_time s < GENERATION_TIMEOUT cfg")
    case False
    with Cons.prems show ?thesis by (auto simp: tick_def)
  next
    case True
    have body: "I (progress s1)"
      if "loop_body has_cb clk n (tick s) ev = Continue s1 \<or>
          loop_body has_cb clk n (tick s) ev = Break s1" for s1
      using loop_body_progress_cases [OF that] step Cons.prems(1) t by metis
    show ?thesis
    proof (cases "loop_body has_cb clk n (tick s) ev")
      case (Continue s1)
      with True Cons.prems(2)
      have "read_loop cfg has_cb clk n s1 rest = Some (Exited s')" by simp
      with Cons.IH body Continue show ?thesis by blast
    next
      case (Break s1)
      with True Cons.prems(2) have "s' = s1" by simp
      with body Break show ?thesis by blast
    next
      case (Return r)
      with True Cons.prems(2) show ?thesis by simp
    next
      case Raise
      with True Cons.prems(2) show ?thesis by simp
    qed
  qed
qed

lemma loop_body_keeps_final:
  assumes "map_of (images (progress s)) k = Some e" and "is_final e"
    and "loop_body has_cb clk n s ev = Continue s' \<or> loop_body has_cb clk n s ev = Break s'"
  shows "map_of (images (progress s')) k = Some e"
  using loop_body_progress_cases [OF assms(3)] assms(1,2) on_image_msg_keeps_final
  by metis

lemma read_loop_keeps_final:
  assumes "map_of (images (progress s)) k = Some e" and "is_final e"
    and "read_loop cfg has_cb clk n s evs = Some (Exited s')"
  shows "map_of (images (progress s')) k = Some e"
proof -
  have "map_of (images (progress s1)) k = Some e"
    if "map_of (images (progress s0)) k = Some e" "on_image_msg has_cb clk s0 b u = Some s1"
    for s0 b u s1
    using on_image_msg_keeps_final [OF that(1) assms(2) that(2)] .
  from this assms(1,3) show ?thesis
    by (rule read_loop_invariant [where I = "\<lambda>p. map_of (images p) k = Some e"])
qed

lemma set_update_subset: "set (AList.update k v al) \<subseteq> insert (k, v) (set al)"
  by (induction al) auto




subsection \<open>The order and the number of the saved units\<close>













subsection \<open>The stall checks\<close>

lemma text_checks_blocked:
  assumes "medium_received_time s = Some T" and "T \<noteq> 0" and "completed (progress s) = 0"
    and "0 < n" and "clk (ticks s) - T > 15"
  shows "text_checks clk n s = Return blocked_result"
  using assms by (simp add: text_checks_def truthy_time_def)

lemma on_timeout_blocked:
  assumes "medium_received_time s = Some T" and "T \<noteq> 0" and "completed (progress s) = 0"
    and "clk (ticks s) - T > 10"
  shows "on_timeout clk s = Return blocked_result"
  using assms by (simp add: on_timeout_def truthy_time_def)

lemma on_timeout_waits:
  assumes "medium_received_time s = Some T" and "T \<noteq> 0" and "completed (progress s) = 0"
    and "\<not> clk (ticks s) - T > 10"
  shows "on_timeout clk s = Continue (tick s)"
  using assms by (simp add: on_timeout_def truthy_time_def tick_def)

lemma no_final_after_update:
  assumes "filter is_final (dict_values al) = []" and "\<not> is_final v"
  shows "filter is_final (dict_values (AList.update k v al)) = []"
  using assms set_update_subset [of k v al]
  by (auto simp: filter_empty_conv dict_values_def)

lemma on_image_msg_stays_stalled:
  assumes "medium_received_time s = Some T" and "completed (progress s) = 0"
    and "get_completed_images (progress s) = []"
    and "b = [] \<or> u = [] \<or> \<not> is_final_image u (int (length b))"
    and "on_image_msg has_cb clk s b u = Some s1"
  shows "medium_received_time s1 = Some T \<and> completed (progress s1) = 0 \<and> ticks s1 = ticks s"
proof (cases "b \<noteq> [] \<and> u \<noteq> []")
  case False
  with assms show ?thesis by (auto simp: on_image_msg_def)
next
  case True
  with assms(4) have nf: "\<not> is_final_image u (int (length b))" by simp
  from True assms(5) obtain k where k: "extract_image_id u = Some k"
    by (auto simp: on_image_msg_def split: option.splits)
  have "filter is_final (dict_values (AList.update k (new_image_progress k b u)
           (images (progress s)))) = []"
    using assms(3) nf
    by (intro no_final_after_update) (simp_all add: get_completed_images_def new_image_progress_def)
  with True k assms(1,2,5) show ?thesis
    by (auto simp: on_image_msg_def Let_def split: if_splits option.splits)
qed

lemma on_image_msg_defined:
  assumes "b = [] \<or> u = [] \<or> extract_image_id u \<noteq> None"
  shows "\<exists>s1. on_image_msg has_cb clk s b u = Some s1"
proof (cases "b \<noteq> [] \<and> u \<noteq> []")
  case False
  then show ?thesis by (auto simp: on_image_msg_def)
next
  case True
  with assms obtain k where "extract_image_id u = Some k" by auto
  with True show ?thesis by (simp add: on_image_msg_def Let_def)
qed

lemma loop_body_text_blocked:
  assumes "medium_received_time s = Some T" and "T \<noteq> 0" and "completed (progress s) = 0"
    and "get_completed_images (progress s) = []"
    and "0 < n" and "reaches_stall_check m" and "clk (Suc (ticks s)) - T > 15"
  shows "loop_body has_cb clk n s (TEXT m) = Return blocked_result"
proof -
  let ?s0 = "tick (s\<lparr>last_activity := clk (ticks s)\<rparr>)"
  have s0: "medium_received_time ?s0 = Some T" "completed (progress ?s0) = 0"
    "get_completed_images (progress ?s0) = []" "ticks ?s0 = Suc (ticks s)"
    using assms(1,3,4) by (simp_all add: tick_def)
  show ?thesis
  proof (cases m)
    case (ImageMsg b u)
    with assms(6) have r: "b = [] \<or> u = [] \<or>
        (extract_image_id u \<noteq> None \<and> \<not> is_final_image u (int (length b)))"
      by (simp add: reaches_stall_check_def)
    then have "b = [] \<or> u = [] \<or> extract_image_id u \<noteq> None" by blast
    from on_image_msg_defined [OF this]
    obtain s1 where s1: "on_image_msg has_cb clk ?s0 b u = Some s1" by blast
    from r have "b = [] \<or> u = [] \<or> \<not> is_final_image u (int (length b))" by blast
    from on_image_msg_stays_stalled [OF s0(1,2,3) this s1] s0(4)
    have "medium_received_time s1 = Some T" "completed (progress s1) = 0"
      "ticks s1 = Suc (ticks s)" by simp_all
    with assms(2,5,7) have "text_checks clk n s1 = Return blocked_result"
      by (intro text_checks_blocked) simp_all
    with ImageMsg s1 show ?thesis by (simp add: Let_def)
  next
    case (ErrorMsg c e)
    let ?s1 = "?s0\<lparr>error_info := Some (c, e)\<rparr>"
    have "text_checks clk n ?s1 = Return blocked_result"
      using s0 assms(2,5,7) by (intro text_checks_blocked) simp_all
    with ErrorMsg assms(6) show ?thesis by (simp add: Let_def reaches_stall_check_def)
  next
    case OtherMsg
    have "text_checks clk n ?s0 = Return blocked_result"
      using s0 assms(2,5,7) by (intro text_checks_blocked) simp_all
    with OtherMsg show ?thesis by (simp add: Let_def)
  next
    case Malformed
    with assms(6) show ?thesis by (simp add: reaches_stall_check_def)
  qed
qed

lemma idle_receive_blocked:
  assumes "medium_received_time s = Some T" and "T \<noteq> 0" and "completed (progress s) = 0"
    and "\<forall>i\<le>j. clk (ticks s + 2 * i) - start_time s < GENERATION_TIMEOUT cfg"
    and "clk (ticks s + 2 * j + 1) - T > 10"
  shows "read_loop cfg has_cb clk n s (replicate (Suc j) RECV_TIMEOUT @ rest) =
           Some (Returned blocked_result)"
  using assms
proof (induction j arbitrary: s)
  case 0
  then have "clk (ticks s) - start_time s < GENERATION_TIMEOUT cfg" by simp
  moreover have "on_timeout clk (tick s) = Return blocked_result"
    using 0 by (intro on_timeout_blocked) (simp_all add: tick_def)
  ultimately show ?case by simp
next
  case (Suc j)
  from Suc.prems(4) have d0: "clk (ticks s) - start_time s < GENERATION_TIMEOUT cfg"
    by (metis add.right_neutral mult_zero_right zero_le)
  show ?case
  proof (cases "clk (Suc (ticks s)) - T > 10")
    case True
    have "on_timeout clk (tick s) = Return blocked_result"
      using Suc.prems(1,2,3) True by (intro on_timeout_blocked) (simp_all add: tick_def)
    with d0 show ?thesis by simp
  next
    case False
    let ?s2 = "tick (tick s)"
    have w: "on_timeout clk (tick s) = Continue ?s2"
      using Suc.prems(1,2,3) False by (intro on_timeout_waits) (simp_all add: tick_def)
    have p: "medium_received_time ?s2 = Some T" "completed (progress ?s2) = 0"
      "ticks ?s2 = ticks s + 2" "start_time ?s2 = start_time s"
      using Suc.prems(1,3) by (simp_all add: tick_def)
    have dl: "\<forall>i\<le>j. clk (ticks ?s2 + 2 * i) - start_time ?s2 < GENERATION_TIMEOUT cfg"
    proof (intro allI impI)
      fix i assume "i \<le> j"
      then have "Suc i \<le> Suc j" by simp
      with Suc.prems(4) have "clk (ticks s + 2 * Suc i) - start_time s < GENERATION_TIMEOUT cfg"
        by blast
      then show "clk (ticks ?s2 + 2 * i) - start_time ?s2 < GENERATION_TIMEOUT cfg"
        by (simp add: p add.commute add.left_commute)
    qed
    have ck: "clk (ticks ?s2 + 2 * j + 1) - T > 10"
      using Suc.prems(5) by (simp add: p add.commute add.left_commute)
    from Suc.IH [OF p(1) Suc.prems(2) p(2) dl ck]
    have "read_loop cfg has_cb clk n ?s2 (replicate (Suc j) RECV_TIMEOUT @ rest) =
           Some (Returned blocked_result)" .
    with d0 w show ?thesis by simp
  qed
qed

section \<open>The claims about the image stream driver\<close>

lemmas eval_defs = on_image_msg_def extract_image_id_def match_here_def startswith_def id_char_def
  new_image_progress_def classify_stage_def is_final_image_def endswith_def text_checks_def
  truthy_time_def tick_def dict_values_def Let_def init_state_def on_timeout_def

lemmas save_defs = after_loop_def save_final_images_def sorted_reverse_def sort_key_of_def
  saved_url_def get_completed_images_def check_blocked_def empty_result_def failure_code_def
  failure_plain_def blocked_result_def no_data_result_def

lemmas ex_defs = ex_clock_def ex_clock_late_def ex_clock_idle_def ex_settings_def
  ex_final_unit_def ex_medium_unit_def ex_preview_unit_def ex_state_with_def
  ex_preview_event_def ex_medium_event_def ex_rate_limit_event_def ex_preview_exit_def
  ex_stalled_state_def saves_all_def saves_none_def


subsection \<open>C1: leaving the read loop without a final image\<close>




subsection \<open>C2: stall detection\<close>

text \<open>
  C2 as stated fails. A medium image is received at 1004 and no unit is final. The next
  frame arrives more than fifteen seconds later (the clock reads 1026 when the pass
  starts) and is an error frame with code \<^verbatim>\<open>rate_limit_exceeded\<close>: the attempt ends with
  the rate-limit failure, not with the blocked failure, because the error frame returns
  before the stall check is reached.
\<close>

theorem stall_detection_counterexample:
  "loop_body False ex_clock_late 4 (tick (init_state ex_clock_late 4)) ex_medium_event =
     Continue ex_stalled_state \<and>
   medium_received_time ex_stalled_state = Some 1004 \<and>
   get_completed_images (progress ex_stalled_state) = [] \<and>
   ex_clock_late (ticks ex_stalled_state) - 1004 > 15 \<and>
   read_loop ex_settings False ex_clock_late 4 ex_stalled_state [ex_rate_limit_event] =
     Some (Returned (failure_code ''rate_limit_exceeded'' ''Too many requests'')) \<and>
   do_generate ex_settings False ex_clock_late saves_all None 4
     [ex_medium_event, ex_rate_limit_event] =
     Some (Inr (failure_code ''rate_limit_exceeded'' ''Too many requests'')) \<and>
   failure_code ''rate_limit_exceeded'' ''Too many requests'' \<noteq> blocked_result"
  by (simp add: ex_defs eval_defs save_defs do_generate_def)

text \<open>
  C2, amended. Let the first medium image have been received at time \<open>T\<close> (not the
  number 0, which the source takes for "no time stamp"), let no unit be final, and let
  the overall deadline not be reached when a pass of the read loop starts. Then
  \<^item> if the pass ends in a read timeout and the clock it reads is more than 10 seconds
    past \<open>T\<close>, the attempt returns the blocked failure;
  \<^item> if the pass receives a text frame that reaches the stall check (any frame but
    unparsable text, a \<^verbatim>\<open>rate_limit_exceeded\<close> error, an image whose URL yields no id, and
    a final image), the target count is positive and the clock read by the check is more
    than 15 seconds past \<open>T\<close>, the attempt returns the blocked failure;
  \<^item> a \<^verbatim>\<open>rate_limit_exceeded\<close> error frame returns the rate-limit failure instead;
  \<^item> hence, when only read timeouts follow and the deadline is not reached before the
    first of them whose clock reading is more than 10 seconds past \<open>T\<close>, the attempt
    returns the blocked failure at that timeout.
  The clock readings are counted from the start of the pass: the loop condition takes
  the first, a timeout's check the second, a text frame's check the third.
\<close>

theorem stall_detection:
  assumes "medium_received_time s = Some T" and "T \<noteq> 0"
    and "completed (progress s) = 0" and "get_completed_images (progress s) = []"
    and "clk (ticks s) - start_time s < GENERATION_TIMEOUT cfg"
  shows "(clk (ticks s + 1) - T > 10 \<longrightarrow>
            read_loop cfg has_cb clk n s (RECV_TIMEOUT # rest) = Some (Returned blocked_result)) \<and>
         (clk (ticks s + 2) - T > 15 \<and> 0 < n \<and> reaches_stall_check m \<longrightarrow>
            read_loop cfg has_cb clk n s (TEXT m # rest) = Some (Returned blocked_result)) \<and>
         read_loop cfg has_cb clk n s (TEXT (ErrorMsg ''rate_limit_exceeded'' msg) # rest) =
            Some (Returned (failure_code ''rate_limit_exceeded'' msg)) \<and>
         ((\<forall>i\<le>j. clk (ticks s + 2 * i) - start_time s < GENERATION_TIMEOUT cfg) \<and>
          clk (ticks s + 2 * j + 1) - T > 10 \<longrightarrow>
            read_loop cfg has_cb clk n s (replicate (Suc j) RECV_TIMEOUT @ rest) =
              Some (Returned blocked_result))"
proof -
  have ts: "medium_received_time (tick s) = Some T" "completed (progress (tick s)) = 0"
    "get_completed_images (progress (tick s)) = []" "ticks (tick s) = Suc (ticks s)"
    using assms(1,3,4) by (simp_all add: tick_def)
  have timeout: "read_loop cfg has_cb clk n s (RECV_TIMEOUT # rest) = Some (Returned blocked_result)"
    if "clk (ticks s + 1) - T > 10"
  proof -
    have "on_timeout clk (tick s) = Return blocked_result"
      using ts assms(2) that by (intro on_timeout_blocked) simp_all
    with assms(5) show ?thesis by simp
  qed
  have recv: "read_loop cfg has_cb clk n s (TEXT m # rest) = Some (Returned blocked_result)"
    if "clk (ticks s + 2) - T > 15" "0 < n" "reaches_stall_check m"
  proof -
    have "clk (Suc (ticks (tick s))) - T > 15" using that(1) ts(4) by simp
    with ts(1) assms(2) ts(2,3) that(2,3)
    have "loop_body has_cb clk n (tick s) (TEXT m) = Return blocked_result"
      by (rule loop_body_text_blocked)
    with assms(5) show ?thesis by simp
  qed
  have rate: "read_loop cfg has_cb clk n s (TEXT (ErrorMsg ''rate_limit_exceeded'' msg) # rest) =
            Some (Returned (failure_code ''rate_limit_exceeded'' msg))"
    using assms(5) by (simp add: Let_def)
  have idle: "read_loop cfg has_cb clk n s (replicate (Suc j) RECV_TIMEOUT @ rest) =
              Some (Returned blocked_result)"
    if "\<forall>i\<le>j. clk (ticks s + 2 * i) - start_time s < GENERATION_TIMEOUT cfg"
      "clk (ticks s + 2 * j + 1) - T > 10"
    using assms(1,2,3) that by (rule idle_receive_blocked)
  from timeout recv rate idle show ?thesis by blast
qed

text \<open>
  Witness for C2: the state after a medium image received at 1004. A timeout and a
  preview image that arrive 22 seconds later both end the attempt as blocked, and so do
  three read timeouts five seconds apart, the third of which comes 15 seconds after the
  medium image.
\<close>

theorem stall_detection_witness:
  "medium_received_time ex_stalled_state = Some 1004 \<and> (1004::real) \<noteq> 0 \<and>
   completed (progress ex_stalled_state) = 0 \<and>
   get_completed_images (progress ex_stalled_state) = [] \<and>
   ex_clock_late (ticks ex_stalled_state) - start_time ex_stalled_state
     < GENERATION_TIMEOUT ex_settings \<and>
   ex_clock_late (ticks ex_stalled_state + 1) - 1004 > 10 \<and>
   ex_clock_late (ticks ex_stalled_state + 2) - 1004 > 15 \<and>
   reaches_stall_check (ImageMsg ''AAAA'' ''https://assets.example/images/ab12.png'') \<and>
   read_loop ex_settings False ex_clock_late 4 ex_stalled_state [RECV_TIMEOUT] =
     Some (Returned blocked_result) \<and>
   read_loop ex_settings False ex_clock_late 4 ex_stalled_state [ex_preview_event] =
     Some (Returned blocked_result) \<and>
   ex_clock_idle (ticks ex_stalled_state + 2 * 2 + 1) - 1004 > 10 \<and>
   read_loop ex_settings False ex_clock_idle 4 ex_stalled_state
     [RECV_TIMEOUT, RECV_TIMEOUT, RECV_TIMEOUT] = Some (Returned blocked_result) \<and>
   do_generate ex_settings False ex_clock_idle saves_all None 4
     [ex_medium_event, RECV_TIMEOUT, RECV_TIMEOUT, RECV_TIMEOUT] = Some (Inr blocked_result)"
proof -
  have h: "medium_received_time ex_stalled_state = Some 1004" "(1004::real) \<noteq> 0"
    "completed (progress ex_stalled_state) = 0"
    "get_completed_images (progress ex_stalled_state) = []"
    by (simp_all add: ex_defs save_defs dict_values_def)
  have late: "ex_clock_late (ticks ex_stalled_state) - start_time ex_stalled_state
     < GENERATION_TIMEOUT ex_settings"
    "ex_clock_late (ticks ex_stalled_state + 1) - 1004 > 10"
    "ex_clock_late (ticks ex_stalled_state + 2) - 1004 > 15"
    by (simp_all add: ex_defs)
  have reach: "reaches_stall_check (ImageMsg ''AAAA'' ''https://assets.example/images/ab12.png'')"
    by (simp add: reaches_stall_check_def eval_defs)
  have idle: "ex_clock_idle (ticks ex_stalled_state) - start_time ex_stalled_state
     < GENERATION_TIMEOUT ex_settings"
    "\<forall>i\<le>2. ex_clock_idle (ticks ex_stalled_state + 2 * i) - start_time ex_stalled_state
       < GENERATION_TIMEOUT ex_settings"
    "ex_clock_idle (ticks ex_stalled_state + 2 * 2 + 1) - 1004 > 10"
    by (simp_all add: ex_defs)
  have first: "read_loop ex_settings False ex_clock_idle 4 (init_state ex_clock_idle 4)
      (ex_medium_event # evs) = read_loop ex_settings False ex_clock_idle 4 ex_stalled_state evs"
    for evs
    by (simp add: ex_defs eval_defs)
  have three: "replicate (Suc 2) RECV_TIMEOUT @ [] = [RECV_TIMEOUT, RECV_TIMEOUT, RECV_TIMEOUT]"
    by (simp add: numeral_2_eq_2)
  from stall_detection [where clk = ex_clock_late and cfg = ex_settings and n = 4 and
      m = "ImageMsg ''AAAA'' ''https://assets.example/images/ab12.png''" and has_cb = False and
      rest = "[]", OF h late(1)] late(2,3) reach
  have a: "read_loop ex_settings False ex_clock_late 4 ex_stalled_state [RECV_TIMEOUT] =
     Some (Returned blocked_result)"
    "read_loop ex_settings False ex_clock_late 4 ex_stalled_state [ex_preview_event] =
     Some (Returned blocked_result)"
    by (simp_all add: ex_preview_event_def)
  from stall_detection [where clk = ex_clock_idle and cfg = ex_settings and n = 4 and j = 2 and
      has_cb = False and rest = "[]", OF h idle(1)] idle(2,3) three
  have b: "read_loop ex_settings False ex_clock_idle 4 ex_stalled_state
     [RECV_TIMEOUT, RECV_TIMEOUT, RECV_TIMEOUT] = Some (Returned blocked_result)"
    by simp
  with first have c: "do_generate ex_settings False ex_clock_idle saves_all None 4
     [ex_medium_event, RECV_TIMEOUT, RECV_TIMEOUT, RECV_TIMEOUT] = Some (Inr blocked_result)"
    by (simp add: do_generate_def)
  from h late reach a b c idle(3) show ?thesis by blast
qed

subsection \<open>C3: a final unit is never replaced\<close>

text \<open>
  C3. Once the unit stored for an id is final, no later event changes what is stored
  for that id: neither one pass of the read loop that goes on or breaks, nor the rest
  of the loop up to its exit.
\<close>

theorem final_unit_never_replaced:
  assumes "map_of (images (progress s)) k = Some e" and "is_final e"
  shows "(loop_body has_cb clk n s ev = Continue s' \<or> loop_body has_cb clk n s ev = Break s'
            \<longrightarrow> map_of (images (progress s')) k = Some e) \<and>
         (read_loop cfg has_cb clk n s evs = Some (Exited s'')
            \<longrightarrow> map_of (images (progress s'')) k = Some e)"
  using assms loop_body_keeps_final read_loop_keeps_final by blast

text \<open>
  Witness for C3: a preview image for the id of a stored final unit leaves the final
  unit in place, after the pass and when the loop is left at the close frame.
\<close>

theorem final_unit_never_replaced_witness:
  "map_of (images (progress (ex_state_with ex_final_unit))) ''ab12'' = Some ex_final_unit \<and>
   is_final ex_final_unit \<and>
   loop_body True ex_clock 4 (ex_state_with ex_final_unit) ex_preview_event =
     Continue ((ex_state_with ex_final_unit)\<lparr>last_activity := 1002, ticks := 3\<rparr>) \<and>
   map_of (images (progress ((ex_state_with ex_final_unit)\<lparr>last_activity := 1002, ticks := 3\<rparr>)))
     ''ab12'' = Some ex_final_unit \<and>
   read_loop ex_settings True ex_clock 4 (ex_state_with ex_final_unit)
     [ex_preview_event, CLOSED_OR_ERROR] =
     Some (Exited ((ex_state_with ex_final_unit)\<lparr>last_activity := 1003, ticks := 5\<rparr>)) \<and>
   map_of (images (progress ((ex_state_with ex_final_unit)\<lparr>last_activity := 1003, ticks := 5\<rparr>)))
     ''ab12'' = Some ex_final_unit"
proof -
  have h1: "map_of (images (progress (ex_state_with ex_final_unit))) ''ab12'' = Some ex_final_unit"
    by (simp add: ex_defs)
  have h2: "is_final ex_final_unit"
    by (simp add: ex_defs)
  have step: "loop_body True ex_clock 4 (ex_state_with ex_final_unit) ex_preview_event =
     Continue ((ex_state_with ex_final_unit)\<lparr>last_activity := 1002, ticks := 3\<rparr>)"
    by (simp add: ex_defs eval_defs)
  have run: "read_loop ex_settings True ex_clock 4 (ex_state_with ex_final_unit)
     [ex_preview_event, CLOSED_OR_ERROR] =
     Some (Exited ((ex_state_with ex_final_unit)\<lparr>last_activity := 1003, ticks := 5\<rparr>))"
    by (simp add: ex_defs eval_defs)
  from final_unit_never_replaced [OF h1 h2, of True ex_clock 4 ex_preview_event
      "(ex_state_with ex_final_unit)\<lparr>last_activity := 1002, ticks := 3\<rparr>" ex_settings
      "[ex_preview_event, CLOSED_OR_ERROR]"
      "(ex_state_with ex_final_unit)\<lparr>last_activity := 1003, ticks := 5\<rparr>"]
    h1 h2 step run
  show ?thesis by blast
qed

subsection \<open>C4: stage classification\<close>

text \<open>
  C4. The stage of an image event with URL \<open>u\<close> and a blob of \<open>s\<close> characters is final
  iff \<open>u\<close> ends in \<^verbatim>\<open>.jpg\<close> and \<open>s > 100000\<close>, else medium iff \<open>s > 30000\<close>, else
  preview. A \<^verbatim>\<open>.jpg\<close> URL with size 150000 is final and with size 50000 medium; size
  10000 is preview whatever the URL. The record stored for the event carries this stage,
  and its \<open>is_final\<close> flag is set exactly when the stage is final.
\<close>

theorem classify_stage_thresholds:
  "(classify_stage u s = Final \<longleftrightarrow> endswith u ''.jpg'' \<and> s > 100000) \<and>
   (classify_stage u s = Medium \<longleftrightarrow> \<not> (endswith u ''.jpg'' \<and> s > 100000) \<and> s > 30000) \<and>
   (classify_stage u s = Preview \<longleftrightarrow> \<not> (endswith u ''.jpg'' \<and> s > 100000) \<and> \<not> s > 30000) \<and>
   (endswith u ''.jpg'' \<longrightarrow> classify_stage u 150000 = Final \<and> classify_stage u 50000 = Medium) \<and>
   classify_stage u 10000 = Preview \<and>
   stage (new_image_progress k b u) = classify_stage u (int (length b)) \<and>
   (is_final (new_image_progress k b u) \<longleftrightarrow> stage (new_image_progress k b u) = Final)"
  by (simp add: classify_stage_def is_final_image_def new_image_progress_def)

text \<open>Witness for C4: the sample URLs and sizes of the claim.\<close>

theorem classify_stage_thresholds_witness:
  "endswith ''https://assets.example/images/ab12.jpg'' ''.jpg'' \<and>
   classify_stage ''https://assets.example/images/ab12.jpg'' 150000 = Final \<and>
   classify_stage ''https://assets.example/images/ab12.jpg'' 50000 = Medium \<and>
   classify_stage ''https://assets.example/images/ab12.png'' 10000 = Preview"
proof -
  have h: "endswith ''https://assets.example/images/ab12.jpg'' ''.jpg''"
    by (simp add: endswith_def)
  from classify_stage_thresholds [of "''https://assets.example/images/ab12.jpg''"] h
    classify_stage_thresholds [of "''https://assets.example/images/ab12.png''"]
  show ?thesis by blast
qed

subsection \<open>C5: which units are kept\<close>



subsection \<open>C10: a unit that is not final is always replaced\<close>

text \<open>
  C10. While the unit stored for an id is not final (or nothing is stored for it), an
  image event with a non-empty blob and a URL that yields this id replaces the stored
  unit by the record built from the event, whatever its stage and size: the block that
  handles the event stores it, and so does every pass of the loop that goes on or
  breaks. Only a final unit is kept.
\<close>

theorem nonfinal_unit_always_replaced:
  assumes "b \<noteq> []" and "extract_image_id u = Some k"
    and "\<forall>e. map_of (images (progress s)) k = Some e \<longrightarrow> \<not> is_final e"
  shows "(\<exists>s1. on_image_msg has_cb clk s b u = Some s1 \<and>
              map_of (images (progress s1)) k = Some (new_image_progress k b u)) \<and>
         (loop_body has_cb clk n s (TEXT (ImageMsg b u)) = Continue s' \<or>
          loop_body has_cb clk n s (TEXT (ImageMsg b u)) = Break s'
            \<longrightarrow> map_of (images (progress s')) k = Some (new_image_progress k b u))"
proof -
  have u: "u \<noteq> []"
    using assms(2) by (auto simp: extract_image_id_Nil)
  have store: "\<exists>s1. on_image_msg has_cb clk t b u = Some s1 \<and>
              map_of (images (progress s1)) k = Some (new_image_progress k b u)"
    if "progress t = progress s" for t
    using assms u that
    by (auto simp: on_image_msg_def Let_def tick_def update_conv' split: option.splits)
  let ?s0 = "tick (s\<lparr>last_activity := clk (ticks s)\<rparr>)"
  have "progress ?s0 = progress s" by (simp add: tick_def)
  from store [OF this] obtain s1 where
    s1: "on_image_msg has_cb clk ?s0 b u = Some s1"
      "map_of (images (progress s1)) k = Some (new_image_progress k b u)" by blast
  have "map_of (images (progress s')) k = Some (new_image_progress k b u)"
    if "loop_body has_cb clk n s (TEXT (ImageMsg b u)) = Continue s' \<or>
        loop_body has_cb clk n s (TEXT (ImageMsg b u)) = Break s'"
  proof -
    from that s1(1) have "text_checks clk n s1 = Continue s' \<or> text_checks clk n s1 = Break s'"
      by (simp add: Let_def)
    then have "progress s' = progress s1" by (rule text_checks_progress)
    with s1(2) show ?thesis by simp
  qed
  with store [of s] show ?thesis by blast
qed

text \<open>
  Witness for C10: a stored medium unit is replaced by a preview image of four
  characters for the same id.
\<close>

theorem nonfinal_unit_always_replaced_witness:
  "''AAAA'' \<noteq> [] \<and>
   extract_image_id ''https://assets.example/images/ab12.png'' = Some ''ab12'' \<and>
   map_of (images (progress (ex_state_with ex_medium_unit))) ''ab12'' = Some ex_medium_unit \<and>
   stage ex_medium_unit = Medium \<and> \<not> is_final ex_medium_unit \<and>
   new_image_progress ''ab12'' ''AAAA'' ''https://assets.example/images/ab12.png'' =
     ex_preview_unit \<and>
   stage ex_preview_unit = Preview \<and> blob_size ex_preview_unit = 4 \<and>
   (\<exists>s1. on_image_msg True ex_clock (ex_state_with ex_medium_unit) ''AAAA''
            ''https://assets.example/images/ab12.png'' = Some s1 \<and>
         map_of (images (progress s1)) ''ab12'' = Some ex_preview_unit) \<and>
   loop_body True ex_clock 4 (ex_state_with ex_medium_unit) ex_preview_event =
     Continue ((ex_state_with ex_preview_unit)\<lparr>last_activity := 1002, ticks := 3,
        callbacks := [(ex_preview_unit, 0, 4)]\<rparr>) \<and>
   map_of (images (progress ((ex_state_with ex_preview_unit)\<lparr>last_activity := 1002, ticks := 3,
        callbacks := [(ex_preview_unit, 0, 4)]\<rparr>))) ''ab12'' = Some ex_preview_unit"
proof -
  let ?u = "''https://assets.example/images/ab12.png''"
  let ?s' = "(ex_state_with ex_preview_unit)\<lparr>last_activity := 1002, ticks := 3,
        callbacks := [(ex_preview_unit, 0, 4)]\<rparr>"
  have h1: "''AAAA'' \<noteq> []" by simp
  have h2: "extract_image_id ?u = Some ''ab12''"
    by (simp add: eval_defs)
  have h3: "\<forall>e. map_of (images (progress (ex_state_with ex_medium_unit))) ''ab12'' = Some e
              \<longrightarrow> \<not> is_final e"
    by (simp add: ex_defs)
  have h4: "map_of (images (progress (ex_state_with ex_medium_unit))) ''ab12'' = Some ex_medium_unit"
    "stage ex_medium_unit = Medium" "\<not> is_final ex_medium_unit"
    by (simp_all add: ex_defs)
  have h5: "new_image_progress ''ab12'' ''AAAA'' ?u = ex_preview_unit"
    "stage ex_preview_unit = Preview" "blob_size ex_preview_unit = 4"
    by (simp_all add: eval_defs ex_defs)
  have pass: "loop_body True ex_clock 4 (ex_state_with ex_medium_unit) ex_preview_event =
      Continue ?s'"
    by (simp add: ex_defs eval_defs)
  note T = nonfinal_unit_always_replaced [OF h1 h2 h3, of True ex_clock 4 ?s']
  from T h5(1) have a: "\<exists>s1. on_image_msg True ex_clock (ex_state_with ex_medium_unit) ''AAAA'' ?u
        = Some s1 \<and> map_of (images (progress s1)) ''ab12'' = Some ex_preview_unit"
    by simp
  from T pass h5(1) have b: "map_of (images (progress ?s')) ''ab12'' = Some ex_preview_unit"
    by (simp add: ex_preview_event_def)
  from h1 h2 h4 h5 a pass b show ?thesis by blast
qed

section \<open>Properties of the orchestrator\<close>

lemma attempts_of_append: "attempts_of (xs @ ys) = attempts_of xs @ attempts_of ys"
  by (induction xs rule: attempts_of.induct) simp_all

lemma acquire_pinned:
  assumes "p \<noteq> []"
  shows "\<exists>extra. acquire env (Some p) i calls = (Some p, calls @ extra) \<and>
           attempts_of extra = [] \<and> GetNextSso \<notin> set extra"
  using assms by (simp add: acquire_def truthy_str_def)



lemma generate_from_pinned:
  assumes "p \<noteq> []"
  shows "fst (generate_from env (Some p) n (Suc left) a 0 lerr calls) =
           (case run_attempt env a p n of Inl e \<Rightarrow> failure_plain e | Inr r \<Rightarrow> r) \<and>
         attempts_of (snd (generate_from env (Some p) n (Suc left) a 0 lerr calls)) =
           attempts_of calls @ [p] \<and>
         (GetNextSso \<in> set (snd (generate_from env (Some p) n (Suc left) a 0 lerr calls))
            \<longleftrightarrow> GetNextSso \<in> set calls)"
proof -
  from acquire_pinned [OF assms] obtain extra where
    acq: "acquire env (Some p) a calls = (Some p, calls @ extra)"
      "attempts_of extra = []" "GetNextSso \<notin> set extra"
    by blast
  have t: "truthy_str (Some p) \<noteq> None" using assms by (simp add: truthy_str_def)
  show ?thesis
    using acq t
    by (cases "run_attempt env a p n")
      (auto simp: attempts_of_append max_blocked_retries_def success_calls_def)
qed

lemma generate_video_from_pinned:
  assumes "p \<noteq> []"
  shows "fst (generate_video_from env (Some p) (Suc left) a lerr calls) =
           (case run_video_attempt env a p of Inl e \<Rightarrow> failure_plain e | Inr r \<Rightarrow> r) \<and>
         attempts_of (snd (generate_video_from env (Some p) (Suc left) a lerr calls)) =
           attempts_of calls @ [p] \<and>
         (GetNextSso \<in> set (snd (generate_video_from env (Some p) (Suc left) a lerr calls))
            \<longleftrightarrow> GetNextSso \<in> set calls)"
proof -
  from acquire_pinned [OF assms] obtain extra where
    acq: "acquire env (Some p) a calls = (Some p, calls @ extra)"
      "attempts_of extra = []" "GetNextSso \<notin> set extra"
    by blast
  have t: "truthy_str (Some p) \<noteq> None" using assms by (simp add: truthy_str_def)
  show ?thesis
    using acq t
    by (cases "run_video_attempt env a p")
      (auto simp: attempts_of_append success_calls_def)
qed

section \<open>The claims about the orchestrator\<close>

lemmas orch_defs = ex_creds_def ex_rate_limited_def ex_env_blocked_def ex_env_rate_limited_def
  is_blocked_def is_retried_def truthy_str_def get_error_code_def get_error_def
  failure_code_def failure_plain_def empty_result_def blocked_result_def

subsection \<open>C6: the cap on blocked attempts\<close>



subsection \<open>C7: a pinned credential\<close>

text \<open>
  C7. When the caller pins a non-empty credential and at least one retry is allowed,
  \<^verbatim>\<open>generate\<close> and \<^verbatim>\<open>generate_video\<close> make exactly one attempt, with the pinned
  credential, and never ask the pool for another one. They return what the attempt
  returned, unchanged (a failure with code \<^verbatim>\<open>rate_limit_exceeded\<close> in particular), or
  the plain failure built from the exception it raised.
\<close>

theorem pinned_credential_one_attempt:
  assumes "p \<noteq> []" and "0 < max_retries"
  shows "fst (generate cfg env n (Some p) max_retries) =
           (case run_attempt env 0 p (image_count cfg n) of
              Inl e \<Rightarrow> failure_plain e | Inr r \<Rightarrow> r) \<and>
         attempts_of (snd (generate cfg env n (Some p) max_retries)) = [p] \<and>
         GetNextSso \<notin> set (snd (generate cfg env n (Some p) max_retries)) \<and>
         fst (generate_video env (Some p) max_retries) =
           (case run_video_attempt env 0 p of Inl e \<Rightarrow> failure_plain e | Inr r \<Rightarrow> r) \<and>
         attempts_of (snd (generate_video env (Some p) max_retries)) = [p] \<and>
         GetNextSso \<notin> set (snd (generate_video env (Some p) max_retries)) \<and>
         (run_attempt env 0 p (image_count cfg n) = Inr r \<longrightarrow>
            fst (generate cfg env n (Some p) max_retries) = r) \<and>
         (run_video_attempt env 0 p = Inr r \<longrightarrow>
            fst (generate_video env (Some p) max_retries) = r)"
proof -
  from assms(2) obtain left where left: "nat max_retries = Suc left"
    by (cases "nat max_retries") auto
  from generate_from_pinned [OF assms(1), of env "image_count cfg n" left 0 None "[]"]
    generate_video_from_pinned [OF assms(1), of env left 0 None "[]"]
  show ?thesis
    by (auto simp: generate_def generate_video_def left)
qed

text \<open>
  Witness for C7: a pinned credential whose attempt is rate limited, with five retries
  allowed for images and three for video.
\<close>

theorem pinned_credential_one_attempt_witness:
  "''sso-pinned'' \<noteq> [] \<and> (0::int) < 5 \<and>
   run_attempt ex_env_rate_limited 0 ''sso-pinned'' (image_count ex_settings None) =
     Inr ex_rate_limited \<and>
   get_error_code ex_rate_limited = ''rate_limit_exceeded'' \<and>
   fst (generate ex_settings ex_env_rate_limited None (Some ''sso-pinned'') 5) = ex_rate_limited \<and>
   attempts_of (snd (generate ex_settings ex_env_rate_limited None (Some ''sso-pinned'') 5)) =
     [''sso-pinned''] \<and>
   GetNextSso \<notin> set (snd (generate ex_settings ex_env_rate_limited None (Some ''sso-pinned'') 5)) \<and>
   run_video_attempt ex_env_rate_limited 0 ''sso-pinned'' = Inr ex_rate_limited \<and>
   fst (generate_video ex_env_rate_limited (Some ''sso-pinned'') 3) = ex_rate_limited \<and>
   attempts_of (snd (generate_video ex_env_rate_limited (Some ''sso-pinned'') 3)) =
     [''sso-pinned'']"
proof -
  have h1: "''sso-pinned'' \<noteq> []" by simp
  have h2: "(0::int) < 5" "(0::int) < 3" by simp_all
  have r: "run_attempt ex_env_rate_limited 0 ''sso-pinned'' (image_count ex_settings None) =
     Inr ex_rate_limited"
    "run_video_attempt ex_env_rate_limited 0 ''sso-pinned'' = Inr ex_rate_limited"
    "get_error_code ex_rate_limited = ''rate_limit_exceeded''"
    by (simp_all add: orch_defs)
  from pinned_credential_one_attempt [OF h1 h2(1), of ex_settings ex_env_rate_limited None
      ex_rate_limited]
    pinned_credential_one_attempt [OF h1 h2(2), of ex_settings ex_env_rate_limited None
      ex_rate_limited] h1 h2 r
  show ?thesis by simp
qed

section \<open>Properties of the video stream driver\<close>


lemma curl_profiles_result:
  assumes "curl_profiles env ps l = Inr r"
  shows "r = l \<or> (\<exists>i\<in>set ps. sync_do_generate_video_via_curl_once env i = Inr r)"
  using assms
proof (induction ps arbitrary: l)
  case Nil
  then show ?case by simp
next
  case (Cons i ps)
  show ?case
  proof (cases "sync_do_generate_video_via_curl_once env i")
    case (Inl e)
    with Cons.prems show ?thesis by simp
  next
    case (Inr r1)
    show ?thesis
    proof (cases "curl_profiles env (i # ps) l = Inr r1")
      case True
      with Cons.prems Inr show ?thesis by simp
    next
      case False
      with Cons.prems Inr have "curl_profiles env ps r1 = Inr r"
        by (auto split: if_splits)
      from Cons.IH [OF this] Inr show ?thesis by auto
    qed
  qed
qed



section \<open>The claim about the video stream driver\<close>


subsection \<open>C8: failure classification\<close>




section \<open>Properties of the incremental consumption adapter\<close>

lemma puts_append: "puts (xs @ ys) = puts xs @ puts ys"
  by (induction xs rule: puts.induct) simp_all

lemma puts_generate_task: "puts (generate_task cbs outcome) = all_items cbs outcome"
  by (induction cbs) (simp_all add: generate_task_def all_items_def split: option.splits)

lemma progress_item_type: "item_type (progress_item cb) = ''progress''"
  by (cases cb) (simp add: progress_item_def)

lemma result_item_is_last:
  assumes "ys @ x # zs = all_items cbs outcome" and "item_type x = ''result''"
  shows "zs = [] \<and> outcome \<noteq> None"
proof (cases outcome)
  case None
  with assms(1) have "x \<in> set (map progress_item cbs)"
    by (metis all_items_def append_Nil2 in_set_conv_decomp option.simps(4))
  with assms(2) show ?thesis by (auto simp: progress_item_type)
next
  case (Some r)
  show ?thesis
  proof (cases zs rule: rev_cases)
    case Nil
    with Some show ?thesis by simp
  next
    case (snoc zs' z)
    with assms(1) Some have "(ys @ x # zs') @ [z] = map progress_item cbs @ [ResultItem r]"
      by (simp add: all_items_def)
    then have "ys @ x # zs' = map progress_item cbs" by (simp only: append1_eq_conv)
    then have "x \<in> set (map progress_item cbs)"
      by (metis in_set_conv_decomp)
    with assms(2) show ?thesis by (auto simp: progress_item_type)
  qed
qed

lemma set_done_is_last:
  assumes "generate_task cbs outcome = before @ SetDone # rest"
  shows "rest = [] \<and> outcome \<noteq> None"
proof (cases outcome)
  case None
  with assms have "SetDone \<in> set (map (\<lambda>cb. Put (progress_item cb)) cbs)"
    by (metis append_Nil2 generate_task_def in_set_conv_decomp option.simps(4))
  then show ?thesis by auto
next
  case (Some r)
  show ?thesis
  proof (cases rest rule: rev_cases)
    case Nil
    with Some show ?thesis by simp
  next
    case (snoc rest' a)
    with assms Some have "(before @ SetDone # rest') @ [a] =
        (map (\<lambda>cb. Put (progress_item cb)) cbs @ [Put (ResultItem r)]) @ [SetDone]"
      by (simp add: generate_task_def)
    then have "before @ SetDone # rest' = map (\<lambda>cb. Put (progress_item cb)) cbs @ [Put (ResultItem r)]"
      by (simp only: append1_eq_conv)
    then have "SetDone \<in> set (map (\<lambda>cb. Put (progress_item cb)) cbs @ [Put (ResultItem r)])"
      by (metis in_set_conv_decomp)
    then show ?thesis by auto
  qed
qed

lemma stream_inv_init: "stream_inv cbs outcome (stream_init cbs outcome)"
  by (simp add: stream_inv_def stream_init_def puts_generate_task)

lemma stream_inv_step:
  assumes "stream_step s s'" and "stream_inv cbs outcome s"
  shows "stream_inv cbs outcome s'"
  using assms
proof (induction rule: stream_step.induct)
  case (put s x rest)
  then show ?case
    by (auto simp: stream_inv_def)
next
  case (set_done s rest)
  from set_done.prems obtain before where "generate_task cbs outcome = before @ task s"
    by (auto simp: stream_inv_def)
  with set_done.hyps(1) have "rest = [] \<and> outcome \<noteq> None"
    using set_done_is_last by metis
  with set_done show ?case
    by (auto simp: stream_inv_def)
next
  case (enter s)
  then show ?case by (simp add: stream_inv_def)
next
  case (leave s)
  then show ?case by (auto simp: stream_inv_def)
next
  case (get s x q)
  from get have eq: "yielded s @ x # q @ puts (task s) = all_items cbs outcome"
    by (simp add: stream_inv_def)
  have fin: "q @ puts (task s) = [] \<and> outcome \<noteq> None" if "item_type x = ''result''"
    using result_item_is_last [of "yielded s" x "q @ puts (task s)" cbs outcome] eq that
    by simp
  from get eq fin show ?case
    by (auto simp: stream_inv_def)
next
  case (timeout s)
  then show ?case by (simp add: stream_inv_def)
qed

lemma reachable_inv: "reachable cbs outcome s \<Longrightarrow> stream_inv cbs outcome s"
  by (induction rule: reachable.induct) (auto intro: stream_inv_init stream_inv_step)

lemma finished_is_stuck:
  assumes "stream_step s s'" and "pc s = Finished"
  shows "yielded s' = yielded s \<and> pc s' = Finished"
  using assms by (induction rule: stream_step.induct) auto

section \<open>The claim about the incremental consumption adapter\<close>

subsection \<open>C9: one result record, and it comes last\<close>

text \<open>
  C9. Whenever the generator of \<^verbatim>\<open>generate_stream\<close> has left its loop, in whatever way
  its steps and those of the background task were interleaved, the task's run of
  \<^verbatim>\<open>generate\<close> has returned a result and the items yielded are the progress records
  of all callbacks, in order, followed by the record of that result. So exactly one
  yielded item is a result record, it is the last one, all items before it are progress
  records, and no later step yields anything more.
\<close>

theorem generate_stream_one_result_last:
  assumes "reachable cbs outcome s" and "pc s = Finished"
  shows "(\<exists>r. outcome = Some r \<and> yielded s = map progress_item cbs @ [ResultItem r]) \<and>
         length (filter (\<lambda>x. item_type x = ''result'') (yielded s)) = 1 \<and>
         item_type (last (yielded s)) = ''result'' \<and>
         (\<forall>x\<in>set (butlast (yielded s)). item_type x = ''progress'') \<and>
         (\<forall>s'. rtranclp stream_step s s' \<longrightarrow> yielded s' = yielded s \<and> pc s' = Finished)"
proof -
  from assms(1) have "stream_inv cbs outcome s" by (rule reachable_inv)
  with assms(2) obtain r where r: "outcome = Some r"
    and y: "yielded s = map progress_item cbs @ [ResultItem r]"
    by (auto simp: stream_inv_def all_items_def)
  have p: "filter (\<lambda>x. item_type x = ''result'') (map progress_item cbs) = []"
    by (simp add: filter_empty_conv progress_item_type)
  have one: "length (filter (\<lambda>x. item_type x = ''result'') (yielded s)) = 1"
    unfolding y by (simp add: p)
  have lst: "item_type (last (yielded s)) = ''result''"
    unfolding y by simp
  have bl: "\<forall>x\<in>set (butlast (yielded s)). item_type x = ''progress''"
    unfolding y by (auto simp: butlast_append progress_item_type)
  have after: "yielded s' = yielded s \<and> pc s' = Finished" if "rtranclp stream_step s s'" for s'
    using that
  proof (induction rule: rtranclp_induct)
    case base
    from assms(2) show ?case by simp
  next
    case (step t u)
    from finished_is_stuck [OF step.hyps(2)] step.IH show ?case by simp
  qed
  from r y one lst bl after show ?thesis by blast
qed

text \<open>
  Witness for C9: the task puts a progress record and the result, the generator takes
  both and leaves its loop at the result, before the task has set the event.
\<close>

theorem generate_stream_one_result_last_witness:
  "reachable ex_callbacks (Some blocked_result)
     (ex_stream_state [SetDone] []
        [progress_item (ex_preview_unit, 0, 4), ResultItem blocked_result] Finished) \<and>
   pc (ex_stream_state [SetDone] []
        [progress_item (ex_preview_unit, 0, 4), ResultItem blocked_result] Finished) = Finished \<and>
   yielded (ex_stream_state [SetDone] []
        [progress_item (ex_preview_unit, 0, 4), ResultItem blocked_result] Finished) =
     map progress_item ex_callbacks @ [ResultItem blocked_result] \<and>
   length (filter (\<lambda>x. item_type x = ''result'')
     (yielded (ex_stream_state [SetDone] []
        [progress_item (ex_preview_unit, 0, 4), ResultItem blocked_result] Finished))) = 1"
proof -
  let ?p = "progress_item (ex_preview_unit, 0, 4)"
  let ?r = "ResultItem blocked_result"
  let ?R = "reachable ex_callbacks (Some blocked_result)"
  have t: "item_type ?p \<noteq> ''result''" "item_type ?r = ''result''"
    by (simp_all add: progress_item_def)
  have "stream_init ex_callbacks (Some blocked_result) =
      ex_stream_state [Put ?p, Put ?r, SetDone] [] [] AtLoopHead"
    by (simp add: stream_init_def generate_task_def ex_callbacks_def ex_stream_state_def)
  with reachable.start [of ex_callbacks "Some blocked_result"]
  have s0: "?R (ex_stream_state [Put ?p, Put ?r, SetDone] [] [] AtLoopHead)" by simp
  have s1: "?R (ex_stream_state [Put ?r, SetDone] [?p] [] AtLoopHead)"
    using reachable.step [OF s0 stream_step.put [of _ ?p "[Put ?r, SetDone]"]]
    by (simp add: ex_stream_state_def)
  have s2: "?R (ex_stream_state [SetDone] [?p, ?r] [] AtLoopHead)"
    using reachable.step [OF s1 stream_step.put [of _ ?r "[SetDone]"]]
    by (simp add: ex_stream_state_def)
  have s3: "?R (ex_stream_state [SetDone] [?p, ?r] [] Waiting)"
    using reachable.step [OF s2 stream_step.enter]
    by (simp add: ex_stream_state_def)
  have s4: "?R (ex_stream_state [SetDone] [?r] [?p] AtLoopHead)"
    using reachable.step [OF s3 stream_step.get [of _ ?p "[?r]"]] t
    by (simp add: ex_stream_state_def)
  have s5: "?R (ex_stream_state [SetDone] [?r] [?p] Waiting)"
    using reachable.step [OF s4 stream_step.enter]
    by (simp add: ex_stream_state_def)
  have s6: "?R (ex_stream_state [SetDone] [] [?p, ?r] Finished)"
    using reachable.step [OF s5 stream_step.get [of _ ?r "[]"]] t
    by (simp add: ex_stream_state_def)
  have f: "pc (ex_stream_state [SetDone] [] [?p, ?r] Finished) = Finished"
    by (simp add: ex_stream_state_def)
  have y: "yielded (ex_stream_state [SetDone] [] [?p, ?r] Finished) =
      map progress_item ex_callbacks @ [?r]"
    by (simp add: ex_stream_state_def ex_callbacks_def)
  from generate_stream_one_result_last [OF s6 f] s6 f y show ?thesis by blast
qed

end
